theory Spec2Isabelle
  imports Main "HOL-Library.Sublist"
begin

section \<open>Python string operations used by app.py\<close>

text \<open>
  Texts are modelled as \<^typ>\<open>string\<close>, that is lists of 8-bit characters: the
  model covers the texts whose code points lie below 256. The operations below are the
  Python \<^verbatim>\<open>str\<close> methods the handlers call, restricted to that range.
\<close>

text \<open>\<^verbatim>\<open>sub in s\<close>: substring test.\<close>

fun contains :: "string \<Rightarrow> string \<Rightarrow> bool" where
  "contains sub [] = (sub = [])"
| "contains sub (c # cs) = (prefix sub (c # cs) \<or> contains sub cs)"

text \<open>\<^verbatim>\<open>str.isspace\<close> on one character (code points below 256).\<close>

definition is_space :: "char \<Rightarrow> bool" where
  "is_space c = ((of_char c :: nat) \<in> {9, 10, 11, 12, 13, 28, 29, 30, 31, 32, 133, 160})"

text \<open>\<^verbatim>\<open>str.lower\<close>: ASCII and Latin-1 capitals move up by 32.\<close>

definition lower_char :: "char \<Rightarrow> char" where
  "lower_char c =
     (let n = (of_char c :: nat) in
      if (65 \<le> n \<and> n \<le> 90) \<or> (192 \<le> n \<and> n \<le> 222 \<and> n \<noteq> 215)
      then char_of (n + 32) else c)"

definition lower :: "string \<Rightarrow> string" where
  "lower s = map lower_char s"

section \<open>Title derivation (raise_ticket, lines 237-253)\<close>

definition title_of :: "string \<Rightarrow> string" where
  "title_of message =
     (if contains ''slack'' (lower message) \<or> contains ''Slack'' message then ''Slack issue''
      else if contains ''upload'' message \<or> contains ''zoom.us'' message
        then ''Upload Consultation''
      else if contains ''Shadowsocks'' (lower message) \<or> contains ''shadowsocks'' message
              \<or> contains ''cannot connect to IPS'' message
        then ''Shadowsocks issue''
      else if contains ''account'' message \<or> contains ''disabled'' message
        then ''Google account disabled''
      else if contains ''magic link'' (lower message) \<or> contains ''update email'' (lower message)
              \<or> contains ''change the email id'' (lower message)
        then ''Expert / client email ID change request''
      else if contains ''TnC'' message \<or> contains ''renew'' message then ''TnC Issues''
      else if contains ''hourly rate'' message then ''Financial rate change request''
      else '''')"

text \<open>
  The rule table of the specification (section 4.2), entry by entry in its words:
  rule 1 "contains slack (either case)", read as regardless of letter case; rule 3
  "contains Shadowsocks/shadowsocks or cannot connect to IPS"; rule 5 case-insensitive;
  the others on the raw text; the eighth entry is the final "else".
\<close>

definition spec_title_rules :: "((string \<Rightarrow> bool) \<times> string) list" where
  "spec_title_rules =
     [(\<lambda>m. contains ''slack'' (lower m), ''Slack issue''),
      (\<lambda>m. contains ''upload'' m \<or> contains ''zoom.us'' m, ''Upload Consultation''),
      (\<lambda>m. contains ''Shadowsocks'' m \<or> contains ''shadowsocks'' m
            \<or> contains ''cannot connect to IPS'' m, ''Shadowsocks issue''),
      (\<lambda>m. contains ''account'' m \<or> contains ''disabled'' m, ''Google account disabled''),
      (\<lambda>m. contains ''magic link'' (lower m) \<or> contains ''update email'' (lower m)
            \<or> contains ''change the email id'' (lower m),
       ''Expert / client email ID change request''),
      (\<lambda>m. contains ''TnC'' m \<or> contains ''renew'' m, ''TnC Issues''),
      (\<lambda>m. contains ''hourly rate'' m, ''Financial rate change request''),
      (\<lambda>m. True, '''')]"

text \<open>The label of the first entry of a table whose predicate holds of the message.\<close>

fun first_match :: "((string \<Rightarrow> bool) \<times> string) list \<Rightarrow> string \<Rightarrow> string option" where
  "first_match [] m = None"
| "first_match ((p, l) # rs) m = (if p m then Some l else first_match rs m)"


section \<open>More string operations: strip, find, slices, split\<close>

abbreviation LF :: char where "LF \<equiv> CHR 0x0A"
abbreviation CR :: char where "CR \<equiv> CHR 0x0D"

text \<open>\<^verbatim>\<open>s.rstrip()\<close>, \<^verbatim>\<open>s.strip()\<close> and \<^verbatim>\<open>s.rstrip(chars)\<close>.\<close>

definition rstrip :: "string \<Rightarrow> string" where
  "rstrip s = rev (dropWhile is_space (rev s))"

definition strip :: "string \<Rightarrow> string" where
  "strip s = dropWhile is_space (rstrip s)"

definition rstrip_chars :: "string \<Rightarrow> string \<Rightarrow> string" where
  "rstrip_chars chars s = rev (dropWhile (\<lambda>c. c \<in> set chars) (rev s))"

text \<open>
  \<^verbatim>\<open>s.find(sub)\<close>: the index of the first occurrence, or -1. \<open>find_first\<close> is the
  search itself, \<open>py_find_from\<close> is \<^verbatim>\<open>s.find(sub, start)\<close>, whose start index
  is normalised the way a slice bound is.
\<close>

fun find_first :: "string \<Rightarrow> string \<Rightarrow> nat option" where
  "find_first sub [] = (if sub = [] then Some 0 else None)"
| "find_first sub (c # cs) =
     (if prefix sub (c # cs) then Some 0 else map_option Suc (find_first sub cs))"

definition py_find :: "string \<Rightarrow> string \<Rightarrow> int" where
  "py_find s sub = (case find_first sub s of Some i \<Rightarrow> int i | None \<Rightarrow> - 1)"

text \<open>A slice bound \<open>i\<close> on a sequence of length \<open>n\<close>: negative counts from the end, then clipped.\<close>

definition slice_bound :: "nat \<Rightarrow> int \<Rightarrow> nat" where
  "slice_bound n i = (if i < 0 then nat (max 0 (i + int n)) else min (nat i) n)"

definition py_find_from :: "string \<Rightarrow> string \<Rightarrow> int \<Rightarrow> int" where
  "py_find_from s sub start =
     (if start > int (length s) then - 1
      else (let st = slice_bound (length s) start in
            case find_first sub (drop st s) of
              Some i \<Rightarrow> int (st + i)
            | None \<Rightarrow> - 1))"

text \<open>\<^verbatim>\<open>s[i:]\<close> and \<^verbatim>\<open>s[i:j]\<close> for integer bounds.\<close>

definition slice_from :: "string \<Rightarrow> int \<Rightarrow> string" where
  "slice_from s i = drop (slice_bound (length s) i) s"

definition slice :: "string \<Rightarrow> int \<Rightarrow> int \<Rightarrow> string" where
  "slice s i j =
     (let a = slice_bound (length s) i; b = slice_bound (length s) j
      in take (b - a) (drop a s))"

text \<open>
  \<^verbatim>\<open>s.split(sep)\<close> for a non-empty separator: the pieces between the successive
  non-overlapping occurrences of \<open>sep\<close>, found from the left. \<open>acc\<close> is the piece
  being read. (Every call in app.py passes a non-empty literal; with an empty
  separator Python raises ValueError.)
\<close>

fun split_acc :: "string \<Rightarrow> string \<Rightarrow> string \<Rightarrow> string list" where
  "split_acc sep acc [] = [acc]"
| "split_acc sep acc (c # cs) =
     (if prefix sep (c # cs) then acc # split_acc sep [] (drop (length sep - 1) cs)
      else split_acc sep (acc @ [c]) cs)"

definition py_split :: "string \<Rightarrow> string \<Rightarrow> string list" where
  "py_split s sep = split_acc sep [] s"

text \<open>Exceptions the handlers can raise.\<close>

datatype exn =
    IndexError | KeyError | NameError | AttributeError | ValueError
  | FileNotFoundError | SlackApiError | RequestException

text \<open>\<^verbatim>\<open>xs[i]\<close> on a list, for an integer index.\<close>

definition py_index :: "'a list \<Rightarrow> int \<Rightarrow> exn + 'a" where
  "py_index xs i =
     (if 0 \<le> i \<and> i < int (length xs) then Inr (xs ! nat i)
      else if i < 0 \<and> - int (length xs) \<le> i then Inr (xs ! nat (i + int (length xs)))
      else Inl IndexError)"

section \<open>The tracker file (load_ticketed_threads, save_ticketed_threads)\<close>

text \<open>
  The file is its content, a string, or \<open>None\<close> when it does not exist. Python opens
  it in text mode: reading translates \<^verbatim>\<open>\r\n\<close> and \<^verbatim>\<open>\r\<close> to
  \<^verbatim>\<open>\n\<close>; writing on POSIX stores the text as it is.
\<close>

fun universal_newlines :: "string \<Rightarrow> string" where
  "universal_newlines [] = []"
| "universal_newlines [c] = (if c = CR then [LF] else [c])"
| "universal_newlines (c # d # cs) =
     (if c = CR then (if d = LF then LF # universal_newlines cs
                      else LF # universal_newlines (d # cs))
      else c # universal_newlines (d # cs))"

text \<open>The lines of a text, each with its terminating newline (the last may lack it).\<close>

fun split_lines :: "string \<Rightarrow> string list" where
  "split_lines [] = []"
| "split_lines (c # cs) =
     (if c = LF then [LF] # split_lines cs
      else (case split_lines cs of [] \<Rightarrow> [[c]] | l # ls \<Rightarrow> (c # l) # ls))"

definition readlines :: "string \<Rightarrow> string list" where
  "readlines content = split_lines (universal_newlines content)"

definition load_ticketed_threads :: "string option \<Rightarrow> string set" where
  "load_ticketed_threads file =
     (case file of
        None \<Rightarrow> {}
      | Some content \<Rightarrow> set (map rstrip (readlines content)))"

text \<open>
  Writing iterates over a Python set, whose order is unspecified: \<open>order\<close> is that
  order, a parameter.
\<close>

definition save_ticketed_threads :: "(string set \<Rightarrow> string list) \<Rightarrow> string set \<Rightarrow> string" where
  "save_ticketed_threads order ticketed_threads =
     concat (map (\<lambda>thread_ts. thread_ts @ [LF]) (order ticketed_threads))"

text \<open>
  The rewrite of the file in ticket_resolved (lines 527-532): the lines that do not
  contain \<open>slack_address\<close> are written back.
\<close>

definition remove_thread_lines :: "string \<Rightarrow> string \<Rightarrow> string" where
  "remove_thread_lines slack_address content =
     concat (filter (\<lambda>line. \<not> contains slack_address line) (readlines content))"

text \<open>
  A list of lines as a text file holds them: no line is empty, a newline only ends a
  line, and every line but the last ends with one.
\<close>

fun line_list :: "string list \<Rightarrow> bool" where
  "line_list [] = True"
| "line_list [l] = (l \<noteq> [] \<and> LF \<notin> set (butlast l))"
| "line_list (l # l' # ls) =
     (l \<noteq> [] \<and> LF \<notin> set (butlast l) \<and> last l = LF \<and> line_list (l' # ls))"


section \<open>Description sanitisation (raise_ticket, lines 255-275)\<close>

text \<open>\<^verbatim>\<open>s.replace(old, new)\<close>: every non-overlapping occurrence, found from the left.\<close>

fun replace_go :: "string \<Rightarrow> string \<Rightarrow> string \<Rightarrow> string" where
  "replace_go old new [] = []"
| "replace_go old new (c # cs) =
     (if prefix old (c # cs) then new @ replace_go old new (drop (length old - 1) cs)
      else c # replace_go old new cs)"

definition py_replace :: "string \<Rightarrow> string \<Rightarrow> string \<Rightarrow> string" where
  "py_replace s old new =
     (if old = [] then new @ concat (map (\<lambda>c. c # new) s) else replace_go old new s)"

text \<open>
  \<^verbatim>\<open>re.findall(r'(https?://\S+)', s)\<close>: at each position the scheme, then the longest
  run of non-space characters, at least one; the search resumes after a match.
\<close>

function findall_urls :: "string \<Rightarrow> string list" where
  "findall_urls [] = []"
| "findall_urls (c # cs) =
     (let scheme = (if prefix ''https://'' (c # cs) then ''https://''
                    else if prefix ''http://'' (c # cs) then ''http://'' else [])
      in if scheme = [] \<or> takeWhile (\<lambda>x. \<not> is_space x) (drop (length scheme) (c # cs)) = []
         then findall_urls cs
         else (scheme @ takeWhile (\<lambda>x. \<not> is_space x) (drop (length scheme) (c # cs)))
              # findall_urls (dropWhile (\<lambda>x. \<not> is_space x) (drop (length scheme) (c # cs))))"
  by pat_completeness auto
termination
proof (relation "measure length")
  show "wf (measure length)" by simp
next
  fix c :: char and cs :: string and x :: string
  show "(cs, c # cs) \<in> measure length" by simp
next
  fix c :: char and cs :: string and x :: string
  assume "\<not> (x = [] \<or> takeWhile (\<lambda>x. \<not> is_space x) (drop (length x) (c # cs)) = [])"
  then have "x \<noteq> []" by simp
  have "length (dropWhile (\<lambda>x. \<not> is_space x) (drop (length x) (c # cs)))
        \<le> length (drop (length x) (c # cs))"
    by (rule length_dropWhile_le)
  also have "\<dots> < length (c # cs)" using \<open>x \<noteq> []\<close> by (cases x) simp_all
  finally show "(dropWhile (\<lambda>x. \<not> is_space x) (drop (length x) (c # cs)), c # cs)
        \<in> measure length" by simp
qed

text \<open>
  \<^verbatim>\<open>re.findall(r'<([^>]+)>', s)\<close>: at a \<^verbatim>\<open><\<close> the longest run of characters other
  than \<^verbatim>\<open>>\<close>, at least one, which a \<^verbatim>\<open>>\<close> must follow; the run is the word found
  and the search resumes after that \<^verbatim>\<open>>\<close>.
\<close>

function findall_words :: "string \<Rightarrow> string list" where
  "findall_words [] = []"
| "findall_words (c # cs) =
     (if c = CHR ''<'' \<and> takeWhile (\<lambda>x. x \<noteq> CHR ''>'') cs \<noteq> []
         \<and> dropWhile (\<lambda>x. x \<noteq> CHR ''>'') cs \<noteq> []
      then takeWhile (\<lambda>x. x \<noteq> CHR ''>'') cs
           # findall_words (tl (dropWhile (\<lambda>x. x \<noteq> CHR ''>'') cs))
      else findall_words cs)"
  by pat_completeness auto
termination
proof (relation "measure length")
  show "wf (measure length)" by simp
next
  fix c :: char and cs :: string
  have "length (tl (dropWhile (\<lambda>x. x \<noteq> CHR ''>'') cs)) \<le> length cs"
    using length_dropWhile_le[of "\<lambda>x. x \<noteq> CHR ''>''" cs] by simp
  then show "(tl (dropWhile (\<lambda>x. x \<noteq> CHR ''>'') cs), c # cs) \<in> measure length" by simp
next
  fix c :: char and cs :: string
  show "(cs, c # cs) \<in> measure length" by simp
qed

text \<open>\<^verbatim>\<open>html.escape(s)\<close>, with its default \<^verbatim>\<open>quote=True\<close>.\<close>

definition escape_char :: "char \<Rightarrow> string" where
  "escape_char c =
     (if c = CHR ''&'' then ''&amp;''
      else if c = CHR ''<'' then ''&lt;''
      else if c = CHR ''>'' then ''&gt;''
      else if c = CHR 0x22 then ''&quot;''
      else if c = CHR 0x27 then ''&#x27;''
      else [c])"

definition html_escape :: "string \<Rightarrow> string" where
  "html_escape s = concat (map escape_char s)"

text \<open>
  The two loops and the escape. The source compares each word with the literal
  \<^verbatim>\<open>'@XXXXXXXXXX'\<close> and substitutes the literal \<^verbatim>\<open>'xxx Ticketing System'\<close>; the
  two literals are the parameters \<open>special\<close> and \<open>label\<close> of \<open>sanitize_with\<close>, and
  \<open>description_of\<close> is the source's instance.
\<close>

definition link_pass :: "string \<Rightarrow> string" where
  "link_pass description =
     foldl (\<lambda>d hyperlink. py_replace d (rstrip_chars ''>'' hyperlink) (rstrip_chars ''>'' hyperlink))
       description (findall_urls description)"

definition word_pass :: "string \<Rightarrow> string \<Rightarrow> string \<Rightarrow> string \<Rightarrow> string" where
  "word_pass special label message description =
     foldl (\<lambda>d word.
              if word = special then py_replace d (''<'' @ word @ ''>'') label
              else py_replace d (''<'' @ word @ ''>'') word)
       description (findall_words message)"

definition sanitize_with :: "string \<Rightarrow> string \<Rightarrow> string \<Rightarrow> string" where
  "sanitize_with special label message =
     html_escape (word_pass special label message (link_pass message))"

definition description_of :: "string \<Rightarrow> string" where
  "description_of message = sanitize_with ''@XXXXXXXXXX'' ''xxx Ticketing System'' message"


section \<open>The identity store (get_assigned_user_id, get_user_info_from_db)\<close>

text \<open>The rows of the table \<^verbatim>\<open>users\<close>, in the order a query scans them.\<close>

record user_row =
  u_id :: string
  u_username :: string
  u_first_name :: string
  u_last_name :: string
  u_real_name :: string
  u_email :: string
  u_is_admin :: int

definition get_assigned_user_id :: "user_row list \<Rightarrow> string \<Rightarrow> string option" where
  "get_assigned_user_id rows name =
     (case find (\<lambda>r. u_real_name r = name) rows of
        Some result \<Rightarrow> Some (u_id result)
      | None \<Rightarrow> None)"

definition get_user_info_from_db :: "user_row list \<Rightarrow> string \<Rightarrow> string \<times> string" where
  "get_user_info_from_db rows user_id =
     (case find (\<lambda>r. u_id r = user_id) rows of
        Some result \<Rightarrow> (u_first_name result, u_last_name result)
      | None \<Rightarrow> ('''', ''''))"

section \<open>What the handlers do to the outside\<close>

text \<open>
  The calls on the chat client, with the arguments the handlers pass.
  \<open>ChatPostMessage channel text thread_ts\<close> is a threaded post, \<open>ChatPostDirect channel text\<close>
  the post without \<^verbatim>\<open>thread_ts\<close> (line 472); the reactions carry name, channel and
  timestamp.
\<close>

datatype slack_call =
    ChatPostMessage string string string
  | ChatPostDirect string string
  | ConversationsHistory string string
  | ConversationsOpen "string option"
  | ConversationsReplies string string
  | ReactionsGet string string
  | ReactionsAdd string string string
  | ReactionsRemove string string string

record create_fields =
  caller_name :: string
  caller_first_name :: string
  description :: string
  title :: string
  slack_address :: string

datatype itop_request =
    CoreCreate create_fields
  | CoreUpdate string string

text \<open>
  A response of the ticketing system: status, body text, and what
  \<^verbatim>\<open>response.json()\<close> gives: not JSON at all, or the friendly names of the entries
  of \<^verbatim>\<open>"objects"\<close> (\<open>None\<close> when that key is absent, and for an entry without
  the field).
\<close>

datatype response_json = NotJson | Json "string option list option"

record http_response =
  status_code :: int
  body :: string
  json :: response_json

datatype effect =
    Ack
  | Slack slack_call
  | ItopPost itop_request
  | WriteTracker string
  | LogError string
  | LogInfo string
  | Print string
  | PrintData

text \<open>A message of a thread as conversations_replies returns it.\<close>

record conv_message =
  msg_user :: "string option"
  msg_text :: "string option"
  msg_bot_id :: "string option"

text \<open>
  The answers of the outside, which the handlers do not control: whether a call on
  the chat client raises, what the read calls return, what the ticketing system answers
  (or the exception of the request), and the iteration order of a set.
  \<open>history env channel oldest\<close> lists the \<^verbatim>\<open>"user"\<close> field of each message
  returned (\<open>None\<close> for a message without it); \<open>reactions env channel timestamp\<close> is
  \<open>None\<close> when the response has no \<^verbatim>\<open>"message"\<close>, else the names of its reactions.
\<close>

record env =
  slack_raises :: "slack_call \<Rightarrow> bool"
  history :: "string \<Rightarrow> string \<Rightarrow> string option list"
  reactions :: "string \<Rightarrow> string \<Rightarrow> string list option"
  dm_channel :: "string option \<Rightarrow> string"
  replies :: "string \<Rightarrow> string \<Rightarrow> conv_message list"
  itop :: "itop_request \<Rightarrow> exn + http_response"
  set_order :: "string set \<Rightarrow> string list"

record world =
  tracker_file :: "string option"
  users :: "user_row list"
  trace :: "effect list"

text \<open>A handler: from a world to an exception or a result, and the world after.\<close>

type_synonym 'a prog = "world \<Rightarrow> (exn + 'a) \<times> world"

definition ret :: "'a \<Rightarrow> 'a prog" where
  "ret x = (\<lambda>w. (Inr x, w))"

definition throw :: "exn \<Rightarrow> 'a prog" where
  "throw e = (\<lambda>w. (Inl e, w))"

definition seq :: "'a prog \<Rightarrow> ('a \<Rightarrow> 'b prog) \<Rightarrow> 'b prog" where
  "seq m f = (\<lambda>w. case m w of (Inl e, w') \<Rightarrow> (Inl e, w') | (Inr x, w') \<Rightarrow> f x w')"

definition lift :: "exn + 'a \<Rightarrow> 'a prog" where
  "lift r = (case r of Inl e \<Rightarrow> throw e | Inr x \<Rightarrow> ret x)"

text \<open>\<^verbatim>\<open>try: m except: h\<close> with a bare except.\<close>

definition try_except :: "'a prog \<Rightarrow> 'a prog \<Rightarrow> 'a prog" where
  "try_except m h = (\<lambda>w. case m w of (Inl e, w') \<Rightarrow> h w' | (Inr x, w') \<Rightarrow> (Inr x, w'))"

definition emit :: "effect \<Rightarrow> unit prog" where
  "emit e = (\<lambda>w. (Inr (), w\<lparr>trace := trace w @ [e]\<rparr>))"

definition slack :: "env \<Rightarrow> slack_call \<Rightarrow> unit prog" where
  "slack env c =
     seq (emit (Slack c)) (\<lambda>_. if slack_raises env c then throw SlackApiError else ret ())"

definition itop_post :: "env \<Rightarrow> itop_request \<Rightarrow> http_response prog" where
  "itop_post env r = seq (emit (ItopPost r)) (\<lambda>_. lift (itop env r))"

definition read_tracker :: "string option prog" where
  "read_tracker = (\<lambda>w. (Inr (tracker_file w), w))"

definition read_users :: "user_row list prog" where
  "read_users = (\<lambda>w. (Inr (users w), w))"

definition write_tracker :: "string \<Rightarrow> unit prog" where
  "write_tracker content =
     (\<lambda>w. (Inr (), w\<lparr>tracker_file := Some content, trace := trace w @ [WriteTracker content]\<rparr>))"

section \<open>raise_ticket (lines 203-315)\<close>

record event =
  ev_channel :: string
  ev_thread_ts :: "string option"
  ev_ts :: string
  ev_user :: string
  ev_text :: string

text \<open>\<^verbatim>\<open>event.get('thread_ts') or event['ts']\<close>\<close>

definition thread_of :: "event \<Rightarrow> string" where
  "thread_of event =
     (case ev_thread_ts event of
        Some t \<Rightarrow> if t \<noteq> [] then t else ev_ts event
      | None \<Rightarrow> ev_ts event)"

text \<open>Lines 307-311: the friendly name of the first object of the response.\<close>

definition ticket_friendly_name :: "http_response \<Rightarrow> exn + string" where
  "ticket_friendly_name response =
     (case json response of
        NotJson \<Rightarrow> Inl ValueError
      | Json None \<Rightarrow> Inl AttributeError
      | Json (Some []) \<Rightarrow> Inl IndexError
      | Json (Some (None # _)) \<Rightarrow> Inl KeyError
      | Json (Some (Some name # _)) \<Rightarrow> Inr name)"

definition already_text :: "string \<Rightarrow> string" where
  "already_text user_id =
     ''Hi <@'' @ user_id @ ''>, we are resolving the ticket... Once we have any update, you will see it here. Stay tuned.''"

definition created_text :: "string \<Rightarrow> string \<Rightarrow> string" where
  "created_text user_id friendly_name =
     ''Hi <@'' @ user_id @ ''>, your request has been received and a ticket has been created with ticket number ''
     @ friendly_name @ ''. You will be updated with the progress of this ticket.''"

text \<open>
  With an empty \<open>thread_ts\<close> line 227 is skipped and line 228 reads the unbound
  \<^verbatim>\<open>thread_ts_fixed\<close>: NameError.
\<close>

definition raise_ticket :: "env \<Rightarrow> event \<Rightarrow> unit prog" where
  "raise_ticket env event =
     seq (emit Ack) (\<lambda>_.
     seq read_tracker (\<lambda>file.
       let channel_id = ev_channel event;
           thread_ts = thread_of event;
           ticketed_threads = load_ticketed_threads file
       in
       if thread_ts \<in> ticketed_threads then
         slack env (ChatPostMessage channel_id (already_text (ev_user event)) thread_ts)
       else
         seq (write_tracker
                (save_ticketed_threads (set_order env) (insert thread_ts ticketed_threads))) (\<lambda>_.
         if thread_ts = [] then throw NameError
         else
           let thread_ts_fixed = concat (py_split thread_ts ''.'');
               address = ''https://xxx.slack.com/archives/'' @ channel_id @ ''/p'' @ thread_ts_fixed;
               user_id = ev_user event
           in
           seq read_users (\<lambda>rows.
             let names = get_user_info_from_db rows user_id;
                 first_name = fst names;
                 last_name = snd names;
                 message = ev_text event;
                 data = CoreCreate \<lparr>caller_name = last_name, caller_first_name = first_name,
                          description = description_of message, title = title_of message,
                          slack_address = address\<rparr>
             in
             seq (itop_post env data) (\<lambda>response.
               if status_code response \<noteq> 200 then
                 emit (LogError (''Failed to create iTop ticket: '' @ body response))
               else
                 seq (lift (ticket_friendly_name response)) (\<lambda>name.
                   slack env (ChatPostMessage channel_id (created_text (ev_user event) name)
                     thread_ts)))))))"


section \<open>Parsing the webhook text (lines 412-425, 435-443; 489-507)\<close>

text \<open>
  Both handlers run the same statements on the text of the first block; ticket_assigned
  also reads the assignee.
\<close>

definition link_text :: "string \<Rightarrow> string" where
  "link_text text_block = strip (slice_from text_block (py_find text_block ''Link to Slack:''))"

definition thread_address :: "string \<Rightarrow> exn + string" where
  "thread_address link =
     (case py_index (py_split link ''/p'') 1 of
        Inl e \<Rightarrow> Inl e
      | Inr piece \<Rightarrow> Inr (take 10 (strip piece) @ ''.'' @ drop 10 (strip piece)))"

definition channel_id_of :: "string \<Rightarrow> exn + string" where
  "channel_id_of link =
     (case py_index (py_split link ''/'') (- 2) of
        Inl e \<Rightarrow> Inl e
      | Inr piece \<Rightarrow> Inr (strip piece))"

definition ticket_number_of :: "string \<Rightarrow> string" where
  "ticket_number_of text_block =
     (let start_ticket = py_find text_block ''R-'';
          end_ticket = start_ticket + 8
      in slice text_block start_ticket end_ticket)"

definition assigned_person_name_of :: "string \<Rightarrow> exn + string" where
  "assigned_person_name_of text_block =
     (let assigned_person_start_index = py_find text_block ''Assigned to:'';
          newline_index = py_find_from text_block [LF] assigned_person_start_index
      in case py_index
                (py_split (slice text_block assigned_person_start_index newline_index)
                   ''Assigned to:'') 1 of
           Inl e \<Rightarrow> Inl e
         | Inr piece \<Rightarrow> Inr (strip piece))"

text \<open>
  \<^verbatim>\<open>for message in messages: user_id = message["user"]\<close>: the variable after the
  loop, \<open>None\<close> while it is unbound; a message without the field raises KeyError.
\<close>

fun last_user :: "string option list \<Rightarrow> string option \<Rightarrow> exn + string option" where
  "last_user [] user_id = Inr user_id"
| "last_user (None # messages) user_id = Inl KeyError"
| "last_user (Some u # messages) user_id = last_user messages (Some u)"

text \<open>An optional string inside an f-string.\<close>

definition str_of :: "string option \<Rightarrow> string" where
  "str_of x = (case x of None \<Rightarrow> ''None'' | Some s \<Rightarrow> s)"

section \<open>ticket_assigned (lines 402-475)\<close>

text \<open>
  The try block of lines 449-464: the read, then, inside the same try, the add when
  the reaction is missing; the bare except prints and goes on.
\<close>

definition ensure_eyes :: "env \<Rightarrow> string \<Rightarrow> string \<Rightarrow> unit prog" where
  "ensure_eyes env channel_id address =
     try_except
       (seq (slack env (ReactionsGet channel_id address)) (\<lambda>_.
          case reactions env channel_id address of
            None \<Rightarrow> ret ()
          | Some names \<Rightarrow>
              if ''eyes'' \<in> set names then ret ()
              else slack env (ReactionsAdd ''eyes'' channel_id address)))
       (emit (Print ''Error checking for reactions''))"

definition assigned_text :: "string \<Rightarrow> string \<Rightarrow> string" where
  "assigned_text user_id assigned_person_name =
     ''Hi <@'' @ user_id @ ''>, your ticket is assigned to '' @ assigned_person_name @ ''.''"

definition direct_text :: "string option \<Rightarrow> string \<Rightarrow> string \<Rightarrow> string" where
  "direct_text assigned_user_id ticket_number link =
     ''Hi <@'' @ str_of assigned_user_id @ ''>, you have been assigned to '' @ ticket_number
     @ ''. '' @ [LF, LF] @ link"

text \<open>The payload is given by the texts of its blocks.\<close>

definition ticket_assigned :: "env \<Rightarrow> string list \<Rightarrow> unit prog" where
  "ticket_assigned env blocks =
     seq (lift (py_index blocks 0)) (\<lambda>text_block.
     let link = link_text text_block in
     seq (lift (thread_address link)) (\<lambda>address.
     seq (lift (channel_id_of link)) (\<lambda>channel_id.
     seq (slack env (ConversationsHistory channel_id address)) (\<lambda>_.
     seq (lift (last_user (history env channel_id address) None)) (\<lambda>user_id.
     let ticket_number = ticket_number_of text_block in
     seq (lift (assigned_person_name_of text_block)) (\<lambda>assigned_person_name.
     seq read_users (\<lambda>rows.
     let assigned_user_id = get_assigned_user_id rows assigned_person_name in
     seq (ensure_eyes env channel_id address) (\<lambda>_.
     seq (case user_id of
            None \<Rightarrow> throw NameError
          | Some u \<Rightarrow>
              slack env (ChatPostMessage channel_id (assigned_text u assigned_person_name)
                address)) (\<lambda>_.
     seq (slack env (ConversationsOpen assigned_user_id)) (\<lambda>_.
     slack env (ChatPostDirect (dm_channel env assigned_user_id)
       (direct_text assigned_user_id ticket_number link))))))))))))"

section \<open>ticket_resolved and send_conversation_to_itop (lines 157-197, 478-539)\<close>

definition truthy :: "string option \<Rightarrow> bool" where
  "truthy x = (case x of None \<Rightarrow> False | Some s \<Rightarrow> s \<noteq> [])"

fun send_loop :: "env \<Rightarrow> string \<Rightarrow> bool \<Rightarrow> conv_message list \<Rightarrow> unit prog" where
  "send_loop env ticket_number first_message [] = ret ()"
| "send_loop env ticket_number first_message (message # output) =
     (if truthy (msg_user message) \<and> truthy (msg_text message) \<and> \<not> truthy (msg_bot_id message)
      then
        if first_message then send_loop env ticket_number False output
        else
          seq (itop_post env (CoreUpdate ticket_number (str_of (msg_text message)))) (\<lambda>response.
            if status_code response \<noteq> 200 then
              emit (LogError (''Failed to send conversation to iTop: '' @ body response))
            else
              seq (emit (LogInfo ''Successfully sent conversation to iTop'')) (\<lambda>_.
                send_loop env ticket_number False output))
      else send_loop env ticket_number first_message output)"

definition send_conversation_to_itop :: "env \<Rightarrow> conv_message list \<Rightarrow> string \<Rightarrow> unit prog" where
  "send_conversation_to_itop env conversation ticket_number =
     send_loop env ticket_number True conversation"

definition resolved_text :: "string \<Rightarrow> string" where
  "resolved_text user_id = ''Hi <@'' @ user_id @ ''>, your ticket has been resolved, please check.''"

definition ticket_resolved :: "env \<Rightarrow> string list \<Rightarrow> unit prog" where
  "ticket_resolved env blocks =
     seq (emit PrintData) (\<lambda>_.
     seq (lift (py_index blocks 0)) (\<lambda>text_block.
     let link = link_text text_block in
     seq (lift (thread_address link)) (\<lambda>address.
     seq (lift (channel_id_of link)) (\<lambda>channel_id.
     let ticket_number = ticket_number_of text_block in
     seq (emit (Print ticket_number)) (\<lambda>_.
     seq (slack env (ConversationsHistory channel_id address)) (\<lambda>_.
     seq (lift (last_user (history env channel_id address) None)) (\<lambda>user_id.
     seq (slack env (ReactionsAdd ''white_check_mark'' channel_id address)) (\<lambda>_.
     seq (slack env (ReactionsRemove ''eyes'' channel_id address)) (\<lambda>_.
     seq (case user_id of
            None \<Rightarrow> throw NameError
          | Some u \<Rightarrow> slack env (ChatPostMessage channel_id (resolved_text u) address)) (\<lambda>_.
     seq read_tracker (\<lambda>file.
     case file of
       None \<Rightarrow> throw FileNotFoundError
     | Some content \<Rightarrow>
         seq (write_tracker (remove_thread_lines address content)) (\<lambda>_.
         seq (slack env (ConversationsReplies channel_id address)) (\<lambda>_.
         send_conversation_to_itop env (replies env channel_id address) ticket_number)))))))))))))"


section \<open>Notions used to state the properties\<close>

text \<open>The ticket-creation calls among some effects.\<close>

fun is_create :: "effect \<Rightarrow> bool" where
  "is_create (ItopPost (CoreCreate request)) = True"
| "is_create other = False"

definition create_calls :: "effect list \<Rightarrow> nat" where
  "create_calls effects = length (filter is_create effects)"

text \<open>
  A thread token that a line of the tracker file holds unchanged: not empty, no
  line break inside, no white space at its end. The timestamps the chat platform
  issues (digits and a dot) are of this kind.
\<close>

definition storable_token :: "string \<Rightarrow> bool" where
  "storable_token t = (t \<noteq> [] \<and> LF \<notin> set t \<and> CR \<notin> set t \<and> \<not> is_space (last t))"

text \<open>
  The request that lines 277-298 build for an event, and the file content that line
  223 writes, stated apart from the handler.
\<close>

definition create_request :: "world \<Rightarrow> event \<Rightarrow> itop_request" where
  "create_request w event =
     CoreCreate \<lparr>caller_name = snd (get_user_info_from_db (users w) (ev_user event)),
        caller_first_name = fst (get_user_info_from_db (users w) (ev_user event)),
        description = description_of (ev_text event), title = title_of (ev_text event),
        slack_address = ''https://xxx.slack.com/archives/'' @ ev_channel event @ ''/p''
           @ concat (py_split (thread_of event) ''.'')\<rparr>"

definition saved :: "env \<Rightarrow> world \<Rightarrow> event \<Rightarrow> string" where
  "saved env w event =
     save_ticketed_threads (set_order env)
       (insert (thread_of event) (load_ticketed_threads (tracker_file w)))"

section \<open>A concrete run\<close>

text \<open>
  A mention in channel C1 at timestamp 1699999999.123456 by U1, an empty identity
  store, no tracker file yet, a ticketing system that answers 500, and a chat client
  on which only the reaction read raises.
\<close>

definition sample_event :: event where
  "sample_event =
     \<lparr>ev_channel = ''C1'', ev_thread_ts = None, ev_ts = ''1699999999.123456'',
      ev_user = ''U1'', ev_text = ''<@XXXXXXXXXX> cannot upload a file''\<rparr>"

definition sample_env :: env where
  "sample_env =
     \<lparr>slack_raises = (\<lambda>c. case c of ReactionsGet channel ts \<Rightarrow> True | _ \<Rightarrow> False),
      history = (\<lambda>channel oldest. [Some ''U1'']),
      reactions = (\<lambda>channel ts. Some []),
      dm_channel = (\<lambda>user. ''D1''),
      replies = (\<lambda>channel ts. []),
      itop = (\<lambda>request. Inr \<lparr>status_code = 500, body = ''error'', json = NotJson\<rparr>),
      set_order = (\<lambda>threads. [''1699999999.123456''])\<rparr>"

definition sample_world :: world where
  "sample_world = \<lparr>tracker_file = None, users = [], trace = []\<rparr>"

text \<open>
  An assignment notice for that thread: ticket R-000111, assigned to Jane Doe, the
  link on the last line.
\<close>

definition sample_text :: string where
  "sample_text =
     ''Ticket R-000111 was assigned. Assigned to: Jane Doe'' @ [LF]
     @ ''Link to Slack: https://x.slack.com/archives/C1/p1699999999123456''"

text \<open>A decimal digit.\<close>

definition is_digit :: "char \<Rightarrow> bool" where
  "is_digit c = (48 \<le> (of_char c :: nat) \<and> (of_char c :: nat) \<le> 57)"

text \<open>
  The text of the end-to-end scenario of the specification (section 8), its dots
  taken literally, and a notice whose workspace name begins with the letter p.
\<close>

definition section8_text :: string where
  "section8_text =
     ''...Link to Slack: https://x.slack.com/archives/C1/p1699999999123456 ... R-000111 ... Assigned to: Jane Doe''
     @ [LF] @ ''...''"

definition p_workspace_text :: string where
  "p_workspace_text =
     ''Ticket R-000111 was assigned. Assigned to: Jane Doe'' @ [LF]
     @ ''Link to Slack: https://plato.slack.com/archives/C1/p1699999999123456''"

text \<open>A program that leaves what the trace holds and only appends to it.\<close>

definition appends :: "'a prog \<Rightarrow> bool" where
  "appends m = (\<forall>w. \<exists>tr. trace (snd (m w)) = trace w @ tr)"

section \<open>Facts about the string operations\<close>

lemma contains_sublist: "contains sub s = sublist sub s"
  by (induction s) (simp_all add: sublist_Cons_right)

lemma of_char_lower_char:
  "(of_char (lower_char c) :: nat) =
     (if (65 \<le> (of_char c :: nat) \<and> (of_char c :: nat) \<le> 90)
         \<or> (192 \<le> (of_char c :: nat) \<and> (of_char c :: nat) \<le> 222
            \<and> (of_char c :: nat) \<noteq> 215)
      then of_char c + 32 else of_char c)"
  by (simp add: lower_char_def Let_def)

lemma lower_Cons: "lower (c # cs) = lower_char c # lower cs"
  by (simp add: lower_def)

lemma contains_lower: "contains sub m \<Longrightarrow> contains (lower sub) (lower m)"
  by (simp add: contains_sublist lower_def map_mono_sublist)

section \<open>Title derivation\<close>

lemma lower_char_not_capital_S: "lower_char c \<noteq> CHR ''S''"
proof
  assume "lower_char c = CHR ''S''"
  then have "(of_char (lower_char c) :: nat) = 83" by simp
  then show False by (simp add: of_char_lower_char split: if_splits)
qed

lemma capital_S_not_in_lower: "\<not> contains (CHR ''S'' # r) (lower m)"
proof (induction m)
  case Nil
  then show ?case by (simp add: lower_def)
next
  case (Cons c cs)
  have "\<not> prefix (CHR ''S'' # r) (lower (c # cs))"
    by (simp add: lower_def lower_char_not_capital_S[symmetric])
  with Cons show ?case by (simp only: lower_Cons contains.simps) simp
qed

lemma capitalised_test_is_dead: "contains ''Shadowsocks'' (lower m) = False"
  using capital_S_not_in_lower by simp

lemma slack_any_case:
  "(contains ''slack'' (lower m) \<or> contains ''Slack'' m) = contains ''slack'' (lower m)"
proof -
  have l: "lower ''Slack'' = ''slack''" by code_simp
  have "contains ''Slack'' m \<Longrightarrow> contains ''slack'' (lower m)"
    using contains_lower[of "''Slack''" m] by (simp only: l)
  then show ?thesis by blast
qed

text \<open>
  Where the capitalised spelling does not decide, the code gives the label of the first
  matching rule of the specification's table.
\<close>

lemma title_follows_spec_table_elsewhere:
  assumes "\<not> contains ''Shadowsocks'' m \<or> contains ''shadowsocks'' m
           \<or> contains ''cannot connect to IPS'' m \<or> contains ''slack'' (lower m)
           \<or> contains ''upload'' m \<or> contains ''zoom.us'' m"
  shows "first_match spec_title_rules m = Some (title_of m)"
proof -
  consider "contains ''slack'' (lower m)"
    | "contains ''upload'' m \<or> contains ''zoom.us'' m"
    | "(contains ''Shadowsocks'' m \<or> contains ''shadowsocks'' m
              \<or> contains ''cannot connect to IPS'' m)
            = (contains ''shadowsocks'' m \<or> contains ''cannot connect to IPS'' m)"
    using assms by blast
  then show ?thesis
  proof cases
    case 1
    then show ?thesis by (simp add: title_of_def spec_title_rules_def)
  next
    case 2
    then show ?thesis by (simp add: title_of_def spec_title_rules_def slack_any_case)
  next
    case 3
    then show ?thesis
      by (simp only: title_of_def spec_title_rules_def capitalised_test_is_dead slack_any_case
            first_match.simps simp_thms) simp
  qed
qed

lemma title_slack_first:
  assumes "contains ''slack'' m"
  shows "title_of m = ''Slack issue''"
proof -
  have l: "lower ''slack'' = ''slack''" by code_simp
  have "contains (lower ''slack'') (lower m)" using assms by (rule contains_lower)
  then have "contains ''slack'' (lower m)" by (simp only: l)
  then show ?thesis by (simp only: title_of_def simp_thms if_True)
qed

text \<open>
  Claim C3. Title derivation is to return the label of the first rule of the table of
  section 4.2 that matches. On the message "Shadowsocks is down" the first matching
  rule of the table is rule 3, with label "Shadowsocks issue", and the code returns the
  empty title: its third test compares the capitalised word with the lower-cased
  message.
\<close>

theorem title_misses_first_matching_rule:
  "first_match spec_title_rules ''Shadowsocks is down'' = Some ''Shadowsocks issue''
   \<and> title_of ''Shadowsocks is down'' = ''''"
  by code_simp

text \<open>
  Claim C4. The third rule tests \<^verbatim>\<open>'Shadowsocks' in message.lower()\<close>: a text in
  lower case never contains the capital S, so that test never holds, and a message with
  the capitalised spelling only is not recognised. The message "Shadowsocks is down"
  contains "Shadowsocks", matches neither rule 1 nor rule 2, and gets the empty title
  instead of "Shadowsocks issue".
\<close>

theorem capitalised_shadowsocks_not_recognised:
  "contains ''Shadowsocks'' ''Shadowsocks is down''
   \<and> \<not> contains ''slack'' (lower ''Shadowsocks is down'')
   \<and> \<not> contains ''Slack'' ''Shadowsocks is down''
   \<and> \<not> contains ''upload'' ''Shadowsocks is down''
   \<and> \<not> contains ''zoom.us'' ''Shadowsocks is down''
   \<and> title_of ''Shadowsocks is down'' = ''''"
  by code_simp

section \<open>The tracker file\<close>


lemma rstrip_prefix: "prefix (rstrip l) l"
proof -
  have "rev l = takeWhile is_space (rev l) @ dropWhile is_space (rev l)" by simp
  then have "l = rev (dropWhile is_space (rev l)) @ rev (takeWhile is_space (rev l))"
    by (metis rev_append rev_rev_ident)
  then show ?thesis unfolding rstrip_def by (metis prefixI)
qed

lemma contains_rstrip: "contains (rstrip l) l"
  by (simp add: contains_sublist rstrip_prefix)

lemma universal_newlines_no_CR: "CR \<notin> set (universal_newlines s)"
  by (induction s rule: universal_newlines.induct) auto

lemma universal_newlines_id: "CR \<notin> set s \<Longrightarrow> universal_newlines s = s"
  by (induction s rule: universal_newlines.induct) auto

lemma concat_split_lines: "concat (split_lines s) = s"
  by (induction s) (auto split: list.splits)

lemma split_lines_line: "LF \<notin> set b \<Longrightarrow> split_lines (b @ LF # r) = (b @ [LF]) # split_lines r"
  by (induction b) auto

lemma split_lines_last: "LF \<notin> set l \<Longrightarrow> l \<noteq> [] \<Longrightarrow> split_lines l = [l]"
proof (induction l)
  case Nil
  then show ?case by simp
next
  case (Cons c l)
  then show ?case by (cases "l = []") auto
qed

lemma split_lines_single: "l \<noteq> [] \<Longrightarrow> LF \<notin> set (butlast l) \<Longrightarrow> split_lines l = [l]"
proof (cases "last l = LF")
  case True
  assume a: "l \<noteq> []" "LF \<notin> set (butlast l)"
  then have "l = butlast l @ [LF]" using True by (metis append_butlast_last_id)
  then have "split_lines l = split_lines (butlast l @ LF # [])" by simp
  also have "\<dots> = (butlast l @ [LF]) # split_lines []" using a(2) by (rule split_lines_line)
  finally show ?thesis using \<open>l = butlast l @ [LF]\<close> by simp
next
  case False
  assume a: "l \<noteq> []" "LF \<notin> set (butlast l)"
  then have "LF \<notin> set l" using False by (metis append_butlast_last_id in_set_conv_decomp_last
        last_snoc rotate1.simps(2) set_ConsD set_rotate1)
  then show ?thesis using a(1) by (rule split_lines_last)
qed

lemma split_lines_concat: "line_list ls \<Longrightarrow> split_lines (concat ls) = ls"
proof (induction ls rule: line_list.induct)
  case 1
  then show ?case by simp
next
  case (2 l)
  then show ?case by (simp add: split_lines_single)
next
  case (3 l l' ls)
  then have l: "l = butlast l @ [LF]" by (metis append_butlast_last_id line_list.simps(3))
  have "split_lines (concat (l # l' # ls)) = split_lines (butlast l @ LF # concat (l' # ls))"
    by (subst l) simp
  also have "\<dots> = (butlast l @ [LF]) # split_lines (concat (l' # ls))"
    using 3 by (intro split_lines_line) simp
  finally show ?case using 3 l by simp
qed

lemma line_list_split_lines: "line_list (split_lines s)"
proof (induction s)
  case Nil
  then show ?case by simp
next
  case (Cons c s)
  show ?case
  proof (cases "c = LF")
    case True
    then show ?thesis using Cons by (cases "split_lines s") auto
  next
    case False
    show ?thesis
    proof (cases "split_lines s")
      case Nil
      then show ?thesis using False by simp
    next
      case (Cons l ls)
      then show ?thesis using False Cons.IH by (cases ls) auto
    qed
  qed
qed

lemma line_list_tl: "line_list (l # ls) \<Longrightarrow> line_list ls"
  by (cases ls) auto

lemma line_list_Cons: "line_list ls \<Longrightarrow> l \<noteq> [] \<Longrightarrow> LF \<notin> set (butlast l) \<Longrightarrow> last l = LF \<Longrightarrow> line_list (l # ls)"
  by (cases ls) auto

lemma line_list_filter: "line_list ls \<Longrightarrow> line_list (filter P ls)"
proof (induction ls)
  case Nil
  then show ?case by simp
next
  case (Cons l ls)
  then have IH: "line_list (filter P ls)" using line_list_tl by blast
  show ?case
  proof (cases "P l")
    case False
    then show ?thesis using IH by simp
  next
    case True
    show ?thesis
    proof (cases ls)
      case Nil
      then show ?thesis using Cons.prems True by simp
    next
      case (Cons l' ls')
      then have "l \<noteq> []" "LF \<notin> set (butlast l)" "last l = LF" using Cons.prems by auto
      then show ?thesis using True IH by (simp add: line_list_Cons)
    qed
  qed
qed

lemma split_lines_no_CR: "CR \<notin> set s \<Longrightarrow> CR \<notin> set (concat (filter P (split_lines s)))"
proof -
  assume "CR \<notin> set s"
  then have "\<forall>l \<in> set (split_lines s). CR \<notin> set l"
    by (metis concat_split_lines set_concat UN_iff)
  then show ?thesis by auto
qed

lemma readlines_remove:
  "readlines (remove_thread_lines t c) = filter (\<lambda>line. \<not> contains t line) (readlines c)"
proof -
  let ?ls = "filter (\<lambda>line. \<not> contains t line) (split_lines (universal_newlines c))"
  have "CR \<notin> set (concat ?ls)" by (rule split_lines_no_CR) (rule universal_newlines_no_CR)
  then have "universal_newlines (concat ?ls) = concat ?ls" by (rule universal_newlines_id)
  moreover have "split_lines (concat ?ls) = ?ls"
    by (intro split_lines_concat line_list_filter line_list_split_lines)
  ultimately show ?thesis by (simp add: readlines_def remove_thread_lines_def)
qed

lemma not_open_after_remove: "t \<notin> load_ticketed_threads (Some (remove_thread_lines t c))"
proof
  assume "t \<in> load_ticketed_threads (Some (remove_thread_lines t c))"
  then obtain l where l: "l \<in> set (readlines (remove_thread_lines t c))" "rstrip l = t"
    by (auto simp: load_ticketed_threads_def)
  then have "\<not> contains t l" by (simp add: readlines_remove)
  with l(2) contains_rstrip[of l] show False by simp
qed



lemma sublist_concat_lines:
  "line_list ls \<Longrightarrow> t \<noteq> [] \<Longrightarrow> LF \<notin> set t \<Longrightarrow> sublist t (concat ls) \<Longrightarrow> \<exists>l \<in> set ls. sublist t l"
proof (induction ls)
  case Nil
  then show ?case by simp
next
  case (Cons l ls)
  from Cons.prems(4) have "sublist t (l @ concat ls)" by simp
  then consider "sublist t l" | "sublist t (concat ls)"
    | t1 t2 where "t = t1 @ t2" "suffix t1 l" "prefix t2 (concat ls)"
    unfolding sublist_append by blast
  then show ?case
  proof cases
    case 1
    then show ?thesis by simp
  next
    case 2
    with Cons have "\<exists>l \<in> set ls. sublist t l" using line_list_tl by blast
    then show ?thesis by simp
  next
    case 3
    show ?thesis
    proof (cases "t1 = [] \<or> ls = []")
      case True
      then show ?thesis
      proof
        assume "t1 = []"
        with 3 have "sublist t (concat ls)" by auto
        with Cons have "\<exists>l \<in> set ls. sublist t l" using line_list_tl by blast
        then show ?thesis by simp
      next
        assume "ls = []"
        with 3 have "t2 = []" by simp
        with 3 have "sublist t l" by auto
        then show ?thesis by simp
      qed
    next
      case False
      then obtain l' ls' where "ls = l' # ls'" by (cases ls) auto
      with Cons.prems(1) have "last l = LF" "l \<noteq> []" by auto
      moreover from 3(2) False have "last t1 = last l"
        by (metis last_appendR suffix_def)
      ultimately have "LF \<in> set t1" using False by (metis last_in_set)
      with 3(1) Cons.prems(3) show ?thesis by simp
    qed
  qed
qed

lemma no_trace_in_file:
  assumes "t \<noteq> []" "LF \<notin> set t"
  shows "\<not> contains t (remove_thread_lines t c)"
proof
  assume "contains t (remove_thread_lines t c)"
  then have "sublist t (concat (filter (\<lambda>line. \<not> contains t line) (readlines c)))"
    by (simp add: contains_sublist remove_thread_lines_def)
  moreover have "line_list (filter (\<lambda>line. \<not> contains t line) (readlines c))"
    unfolding readlines_def by (intro line_list_filter line_list_split_lines)
  ultimately obtain l where "l \<in> set (filter (\<lambda>line. \<not> contains t line) (readlines c))" "sublist t l"
    using sublist_concat_lines[OF _ assms] by blast
  then show False by (simp add: contains_sublist)
qed

text \<open>
  Claim C6. The rewrite of the tracker file in the resolve path keeps exactly the stored
  lines that do not contain the thread token \<open>t\<close> as a substring: the new content is
  their concatenation, and reading it back gives those lines; so a stored line whose
  token merely contains \<open>t\<close> is removed too. After the create path has added \<open>t\<close>
  and saved the set (in any iteration order) and the resolve path has rewritten the file,
  \<open>t\<close> is not in the loaded set, no line of the file contains \<open>t\<close>, and, for a
  non-empty token without a newline, neither does the file as a whole.
\<close>

theorem resolve_removes_lines_containing_thread:
  "remove_thread_lines t c = concat (filter (\<lambda>line. \<not> contains t line) (readlines c))
   \<and> readlines (remove_thread_lines t c) = filter (\<lambda>line. \<not> contains t line) (readlines c)
   \<and> (\<forall>line \<in> set (readlines c).
         contains t line \<longrightarrow> line \<notin> set (readlines (remove_thread_lines t c)))
   \<and> t \<notin> load_ticketed_threads (Some (remove_thread_lines t
         (save_ticketed_threads order (insert t (load_ticketed_threads file)))))
   \<and> (\<forall>line \<in> set (readlines (remove_thread_lines t
         (save_ticketed_threads order (insert t (load_ticketed_threads file))))).
         \<not> contains t line)
   \<and> (t \<noteq> [] \<and> LF \<notin> set t \<longrightarrow>
        \<not> contains t (remove_thread_lines t
          (save_ticketed_threads order (insert t (load_ticketed_threads file)))))"
proof -
  have a: "readlines (remove_thread_lines t c') = filter (\<lambda>line. \<not> contains t line) (readlines c')"
    for c' by (rule readlines_remove)
  have b: "\<forall>line \<in> set (readlines c).
         contains t line \<longrightarrow> line \<notin> set (readlines (remove_thread_lines t c))"
    by (simp add: a)
  have c: "\<forall>line \<in> set (readlines (remove_thread_lines t c')). \<not> contains t line" for c'
    by (simp add: a)
  have d: "t \<noteq> [] \<and> LF \<notin> set t \<longrightarrow> \<not> contains t (remove_thread_lines t c')" for c'
    using no_trace_in_file by blast
  show ?thesis
    by (intro conjI) (rule remove_thread_lines_def a b c d not_open_after_remove)+
qed

theorem resolve_removes_lines_containing_thread_witness:
  "[CHR ''1'', CHR ''2'', CHR ''3'', LF] \<in> set (readlines [CHR ''1'', CHR ''2'', CHR ''3'', LF, CHR ''4'', CHR ''5'', LF])
   \<and> contains ''12'' [CHR ''1'', CHR ''2'', CHR ''3'', LF]
   \<and> [CHR ''1'', CHR ''2'', CHR ''3'', LF] \<notin> set (readlines (remove_thread_lines ''12''
          [CHR ''1'', CHR ''2'', CHR ''3'', LF, CHR ''4'', CHR ''5'', LF]))
   \<and> readlines (remove_thread_lines ''12'' [CHR ''1'', CHR ''2'', CHR ''3'', LF, CHR ''4'', CHR ''5'', LF])
       = [[CHR ''4'', CHR ''5'', LF]]
   \<and> ''12'' \<noteq> [] \<and> LF \<notin> set ''12''
   \<and> \<not> contains ''12'' (remove_thread_lines ''12''
          (save_ticketed_threads (\<lambda>S. [''45'', ''12''])
             (insert ''12'' (load_ticketed_threads (Some [CHR ''4'', CHR ''5'', LF])))))
   \<and> [CHR ''4'', CHR ''5'', LF] \<in> set (readlines (remove_thread_lines ''12''
          (save_ticketed_threads (\<lambda>S. [''45'', ''12''])
             (insert ''12'' (load_ticketed_threads (Some [CHR ''4'', CHR ''5'', LF]))))))
   \<and> \<not> contains ''12'' [CHR ''4'', CHR ''5'', LF]"
proof -
  have g: "[CHR ''1'', CHR ''2'', CHR ''3'', LF] \<in> set (readlines [CHR ''1'', CHR ''2'', CHR ''3'', LF, CHR ''4'', CHR ''5'', LF])"
    "contains ''12'' [CHR ''1'', CHR ''2'', CHR ''3'', LF]"
    "filter (\<lambda>line. \<not> contains ''12'' line) (readlines [CHR ''1'', CHR ''2'', CHR ''3'', LF, CHR ''4'', CHR ''5'', LF])
       = [[CHR ''4'', CHR ''5'', LF]]"
    "''12'' \<noteq> []" "LF \<notin> set ''12''"
    "[CHR ''4'', CHR ''5'', LF] \<in> set (readlines (remove_thread_lines ''12''
          (save_ticketed_threads (\<lambda>S. [''45'', ''12''])
             (insert ''12'' (load_ticketed_threads (Some [CHR ''4'', CHR ''5'', LF]))))))"
    by code_simp+
  from g resolve_removes_lines_containing_thread[of "''12''"
      "[CHR ''1'', CHR ''2'', CHR ''3'', LF, CHR ''4'', CHR ''5'', LF]"
      "\<lambda>S. [''45'', ''12'']" "Some [CHR ''4'', CHR ''5'', LF]"]
  show ?thesis by metis
qed

section \<open>raise_ticket\<close>


lemmas prog_defs = seq_def emit_def read_tracker_def read_users_def write_tracker_def slack_def
  itop_post_def lift_def ret_def throw_def try_except_def

lemma raise_ticket_tracked:
  assumes "thread_of event \<in> load_ticketed_threads (tracker_file w)"
  shows "raise_ticket env event w =
     (if slack_raises env (ChatPostMessage (ev_channel event) (already_text (ev_user event)) (thread_of event))
      then Inl SlackApiError else Inr (),
      w\<lparr>trace := trace w @ [Ack, Slack (ChatPostMessage (ev_channel event)
            (already_text (ev_user event)) (thread_of event))]\<rparr>)"
  using assms by (simp add: raise_ticket_def prog_defs Let_def)

lemma raise_ticket_untracked:
  assumes "thread_of event \<notin> load_ticketed_threads (tracker_file w)" "thread_of event \<noteq> []"
  shows "raise_ticket env event w =
     (let w1 = w\<lparr>tracker_file := Some (saved env w event),
                 trace := trace w @ [Ack, WriteTracker (saved env w event),
                                     ItopPost (create_request w event)]\<rparr>
      in case itop env (create_request w event) of
           Inl e \<Rightarrow> (Inl e, w1)
         | Inr response \<Rightarrow>
             if status_code response \<noteq> 200
             then (Inr (), w1\<lparr>trace := trace w1 @ [LogError (''Failed to create iTop ticket: '' @ body response)]\<rparr>)
             else (case ticket_friendly_name response of
                     Inl e \<Rightarrow> (Inl e, w1)
                   | Inr name \<Rightarrow>
                      (if slack_raises env (ChatPostMessage (ev_channel event) (created_text (ev_user event) name) (thread_of event))
                       then Inl SlackApiError else Inr (),
                       w1\<lparr>trace := trace w1 @ [Slack (ChatPostMessage (ev_channel event)
                              (created_text (ev_user event) name) (thread_of event))]\<rparr>)))"
  using assms
  by (simp add: raise_ticket_def prog_defs Let_def create_request_def saved_def split: sum.splits)

text \<open>Reading back what save wrote.\<close>

lemma split_lines_saved:
  "\<forall>x \<in> set xs. LF \<notin> set x \<Longrightarrow>
     split_lines (concat (map (\<lambda>x. x @ [LF]) xs)) = map (\<lambda>x. x @ [LF]) xs"
proof (induction xs)
  case Nil
  then show ?case by simp
next
  case (Cons x xs)
  have "split_lines (concat (map (\<lambda>x. x @ [LF]) (x # xs)))
        = split_lines (x @ LF # concat (map (\<lambda>x. x @ [LF]) xs))" by simp
  also have "\<dots> = (x @ [LF]) # split_lines (concat (map (\<lambda>x. x @ [LF]) xs))"
    using Cons.prems by (intro split_lines_line) simp
  finally show ?case using Cons by simp
qed

lemma rstrip_line: "rstrip x = x \<Longrightarrow> rstrip (x @ [LF]) = x"
  by (simp add: rstrip_def is_space_def)

lemma load_save:
  assumes "\<forall>x \<in> set xs. LF \<notin> set x \<and> CR \<notin> set x \<and> rstrip x = x"
  shows "load_ticketed_threads (Some (concat (map (\<lambda>x. x @ [LF]) xs))) = set xs"
proof -
  let ?c = "concat (map (\<lambda>x. x @ [LF]) xs)"
  have "CR \<notin> set ?c" using assms by auto
  then have "universal_newlines ?c = ?c" by (rule universal_newlines_id)
  then have "readlines ?c = map (\<lambda>x. x @ [LF]) xs"
    using assms by (simp add: readlines_def split_lines_saved)
  then have "map rstrip (readlines ?c) = xs"
    using assms by (simp add: map_idI rstrip_line)
  then show ?thesis by (simp add: load_ticketed_threads_def)
qed

lemma rstrip_idem: "rstrip (rstrip l) = rstrip l"
proof -
  have "dropWhile is_space (dropWhile is_space ys) = dropWhile is_space ys" for ys
    by (simp add: dropWhile_idem)
  then show ?thesis by (simp add: rstrip_def)
qed

lemma in_set_butlast_or_last: "x \<in> set l \<Longrightarrow> x \<in> set (butlast l) \<or> x = last l"
  by (cases l rule: rev_cases) auto

lemma rstrip_subset: "set (rstrip l) \<subseteq> set l"
  using rstrip_prefix[of l] by (rule set_mono_prefix)

lemma rstrip_snoc_LF: "rstrip (b @ [LF]) = rstrip b"
  by (simp add: rstrip_def is_space_def)

lemma rstrip_no_LF:
  assumes "LF \<notin> set (butlast l)"
  shows "LF \<notin> set (rstrip l)"
proof (cases "l \<noteq> [] \<and> last l = LF")
  case False
  then have "LF \<notin> set l" using assms in_set_butlast_or_last[of LF l] by (cases l) auto
  then show ?thesis using rstrip_subset[of l] by blast
next
  case True
  then have "l = butlast l @ [LF]" by (metis append_butlast_last_id)
  then have "rstrip l = rstrip (butlast l)" using rstrip_snoc_LF[of "butlast l"] by simp
  then show ?thesis using assms rstrip_subset[of "butlast l"] by auto
qed

lemma line_list_member: "line_list ls \<Longrightarrow> l \<in> set ls \<Longrightarrow> LF \<notin> set (butlast l)"
  by (induction ls rule: line_list.induct) auto

lemma loaded_clean:
  assumes "x \<in> load_ticketed_threads file"
  shows "LF \<notin> set x \<and> CR \<notin> set x \<and> rstrip x = x"
proof -
  from assms obtain c l where c: "file = Some c" and l: "l \<in> set (readlines c)" "x = rstrip l"
    by (auto simp: load_ticketed_threads_def split: option.splits)
  have "CR \<notin> set (universal_newlines c)" by (rule universal_newlines_no_CR)
  then have "CR \<notin> set (concat (split_lines (universal_newlines c)))"
    by (simp add: concat_split_lines)
  with l(1) have "CR \<notin> set l" by (auto simp: readlines_def)
  then have "CR \<notin> set x" using l(2) rstrip_subset[of l] by blast
  moreover have "LF \<notin> set (butlast l)"
    using l(1) line_list_split_lines line_list_member unfolding readlines_def by blast
  then have "LF \<notin> set x" using l(2) rstrip_no_LF by simp
  ultimately show ?thesis using l(2) rstrip_idem by simp
qed

lemma storable_clean: "storable_token t \<Longrightarrow> LF \<notin> set t \<and> CR \<notin> set t \<and> rstrip t = t"
proof -
  assume s: "storable_token t"
  then have "t \<noteq> []" "\<not> is_space (last t)" by (simp_all add: storable_token_def)
  then have "dropWhile is_space (rev t) = rev t"
    by (metis dropWhile_eq_self_iff hd_rev rev_is_Nil_conv)
  then have "rstrip t = t" by (simp add: rstrip_def)
  with s show ?thesis by (simp add: storable_token_def)
qed

lemma load_saved:
  assumes "storable_token (thread_of event)"
    and "set (set_order env (insert (thread_of event) (load_ticketed_threads (tracker_file w))))
         = insert (thread_of event) (load_ticketed_threads (tracker_file w))"
  shows "load_ticketed_threads (Some (saved env w event))
         = insert (thread_of event) (load_ticketed_threads (tracker_file w))"
proof -
  let ?S = "insert (thread_of event) (load_ticketed_threads (tracker_file w))"
  have "\<forall>x \<in> ?S. LF \<notin> set x \<and> CR \<notin> set x \<and> rstrip x = x"
    using storable_clean[OF assms(1)] loaded_clean by blast
  then have "\<forall>x \<in> set (set_order env ?S). LF \<notin> set x \<and> CR \<notin> set x \<and> rstrip x = x"
    by (simp only: assms(2))
  then have "load_ticketed_threads (Some (concat (map (\<lambda>x. x @ [LF]) (set_order env ?S))))
        = set (set_order env ?S)" by (rule load_save)
  then show ?thesis by (simp add: saved_def save_ticketed_threads_def assms(2))
qed



lemma create_calls_append: "create_calls (xs @ ys) = create_calls xs + create_calls ys"
  by (simp add: create_calls_def)

lemma create_calls_untracked:
  assumes "thread_of event \<notin> load_ticketed_threads (tracker_file w)" "thread_of event \<noteq> []"
  shows "create_calls (trace (snd (raise_ticket env event w))) = create_calls (trace w) + 1"
  using assms
  by (simp add: raise_ticket_untracked Let_def create_calls_def create_request_def
      split: sum.splits)

lemma after_untracked:
  assumes "thread_of event \<notin> load_ticketed_threads (tracker_file w)" "thread_of event \<noteq> []"
  shows "tracker_file (snd (raise_ticket env event w)) = Some (saved env w event)"
    and "users (snd (raise_ticket env event w)) = users w"
  using assms by (simp_all add: raise_ticket_untracked Let_def split: sum.splits)

text \<open>
  Claim C1. When the thread of a mention is already in the persisted tracker set, the
  handler acknowledges, posts the "we are resolving the ticket" reply in the thread and
  does nothing else: no ticket-creation call, the file untouched. Hence two mentions
  of one thread in a row, the first on a thread not yet tracked, make exactly one
  ticket-creation call: the first adds the thread and saves, the second finds it and
  only replies. (The thread token is one that a line of the file holds unchanged, as
  the platform's timestamps are, and the set is written in some order of its
  elements.)
\<close>

theorem second_mention_only_replies:
  "(thread_of event \<in> load_ticketed_threads (tracker_file w) \<longrightarrow>
      trace (snd (raise_ticket env event w))
        = trace w @ [Ack, Slack (ChatPostMessage (ev_channel event)
                                   (already_text (ev_user event)) (thread_of event))]
      \<and> create_calls (trace (snd (raise_ticket env event w))) = create_calls (trace w)
      \<and> tracker_file (snd (raise_ticket env event w)) = tracker_file w)
   \<and> (thread_of event \<notin> load_ticketed_threads (tracker_file w)
        \<and> storable_token (thread_of event)
        \<and> set (set_order env (insert (thread_of event) (load_ticketed_threads (tracker_file w))))
            = insert (thread_of event) (load_ticketed_threads (tracker_file w))
        \<and> thread_of event' = thread_of event \<longrightarrow>
      create_calls (trace (snd (raise_ticket env event w))) = create_calls (trace w) + 1
      \<and> trace (snd (raise_ticket env' event' (snd (raise_ticket env event w))))
          = trace (snd (raise_ticket env event w))
            @ [Ack, Slack (ChatPostMessage (ev_channel event')
                             (already_text (ev_user event')) (thread_of event))]
      \<and> create_calls (trace (snd (raise_ticket env' event' (snd (raise_ticket env event w)))))
          = create_calls (trace w) + 1)"
proof (intro conjI impI)
  assume t: "thread_of event \<in> load_ticketed_threads (tracker_file w)"
  show "trace (snd (raise_ticket env event w))
        = trace w @ [Ack, Slack (ChatPostMessage (ev_channel event)
                                   (already_text (ev_user event)) (thread_of event))]"
    by (simp add: raise_ticket_tracked[OF t])
  show "create_calls (trace (snd (raise_ticket env event w))) = create_calls (trace w)"
    by (simp add: raise_ticket_tracked[OF t] create_calls_def)
  show "tracker_file (snd (raise_ticket env event w)) = tracker_file w"
    by (simp add: raise_ticket_tracked[OF t])
next
  assume a: "thread_of event \<notin> load_ticketed_threads (tracker_file w)
        \<and> storable_token (thread_of event)
        \<and> set (set_order env (insert (thread_of event) (load_ticketed_threads (tracker_file w))))
            = insert (thread_of event) (load_ticketed_threads (tracker_file w))
        \<and> thread_of event' = thread_of event"
  then have ne: "thread_of event \<noteq> []" by (simp add: storable_token_def)
  let ?w1 = "snd (raise_ticket env event w)"
  have f: "tracker_file ?w1 = Some (saved env w event)"
    using a ne by (simp add: after_untracked)
  have "load_ticketed_threads (Some (saved env w event))
         = insert (thread_of event) (load_ticketed_threads (tracker_file w))"
    using a by (intro load_saved) simp_all
  then have t: "thread_of event' \<in> load_ticketed_threads (tracker_file ?w1)"
    using a f by simp
  show c1: "create_calls (trace ?w1) = create_calls (trace w) + 1"
    using a ne by (simp add: create_calls_untracked)
  show "trace (snd (raise_ticket env' event' ?w1))
          = trace ?w1 @ [Ack, Slack (ChatPostMessage (ev_channel event')
                             (already_text (ev_user event')) (thread_of event))]"
    using a by (simp add: raise_ticket_tracked[OF t])
  show "create_calls (trace (snd (raise_ticket env' event' ?w1))) = create_calls (trace w) + 1"
    using c1 by (simp add: raise_ticket_tracked[OF t] create_calls_def)
qed



theorem second_mention_only_replies_witness:
  "thread_of sample_event \<notin> load_ticketed_threads (tracker_file sample_world)
   \<and> storable_token (thread_of sample_event)
   \<and> set (set_order sample_env
            (insert (thread_of sample_event) (load_ticketed_threads (tracker_file sample_world))))
       = insert (thread_of sample_event) (load_ticketed_threads (tracker_file sample_world))
   \<and> create_calls (trace sample_world) = 0
   \<and> create_calls (trace (snd (raise_ticket sample_env sample_event sample_world)))
       = create_calls (trace sample_world) + 1
   \<and> trace (snd (raise_ticket sample_env sample_event
                   (snd (raise_ticket sample_env sample_event sample_world))))
       = trace (snd (raise_ticket sample_env sample_event sample_world))
         @ [Ack, Slack (ChatPostMessage (ev_channel sample_event)
                          (already_text (ev_user sample_event)) (thread_of sample_event))]
   \<and> create_calls (trace (snd (raise_ticket sample_env sample_event
                   (snd (raise_ticket sample_env sample_event sample_world)))))
       = create_calls (trace sample_world) + 1"
proof -
  have h: "thread_of sample_event \<notin> load_ticketed_threads (tracker_file sample_world)"
    "storable_token (thread_of sample_event)"
    "set (set_order sample_env
            (insert (thread_of sample_event) (load_ticketed_threads (tracker_file sample_world))))
       = insert (thread_of sample_event) (load_ticketed_threads (tracker_file sample_world))"
    "create_calls (trace sample_world) = 0"
    by code_simp+
  from h second_mention_only_replies[of sample_event sample_world sample_env sample_event sample_env]
  show ?thesis by blast
qed

text \<open>
  Claim C7. On a mention of a thread not yet tracked the handler adds the thread to the
  set and writes the whole set to the file before it sends the creation request; when
  the ticketing system answers with a status other than 200 it logs the failure and
  returns: the effects are, in order, the write, the request and the error log, with no
  reply in the thread, and the file still holds the old set with the thread added.
\<close>

theorem failed_creation_keeps_thread_tracked:
  assumes "thread_of event \<notin> load_ticketed_threads (tracker_file w)"
    and "storable_token (thread_of event)"
    and "set (set_order env (insert (thread_of event) (load_ticketed_threads (tracker_file w))))
         = insert (thread_of event) (load_ticketed_threads (tracker_file w))"
    and "itop env (create_request w event) = Inr response"
    and "status_code response \<noteq> 200"
  shows "raise_ticket env event w =
           (Inr (), w\<lparr>tracker_file := Some (saved env w event),
                       trace := trace w @ [Ack, WriteTracker (saved env w event),
                                  ItopPost (create_request w event),
                                  LogError (''Failed to create iTop ticket: '' @ body response)]\<rparr>)
         \<and> load_ticketed_threads (tracker_file (snd (raise_ticket env event w)))
             = insert (thread_of event) (load_ticketed_threads (tracker_file w))"
proof -
  have ne: "thread_of event \<noteq> []" using assms(2) by (simp add: storable_token_def)
  have r: "raise_ticket env event w =
           (Inr (), w\<lparr>tracker_file := Some (saved env w event),
                       trace := trace w @ [Ack, WriteTracker (saved env w event),
                                  ItopPost (create_request w event),
                                  LogError (''Failed to create iTop ticket: '' @ body response)]\<rparr>)"
    using assms(4,5) by (simp add: raise_ticket_untracked[OF assms(1) ne] Let_def)
  have "load_ticketed_threads (Some (saved env w event))
         = insert (thread_of event) (load_ticketed_threads (tracker_file w))"
    using assms(2,3) by (rule load_saved)
  then show ?thesis using r by simp
qed

theorem failed_creation_keeps_thread_tracked_witness:
  "thread_of sample_event \<notin> load_ticketed_threads (tracker_file sample_world)
   \<and> storable_token (thread_of sample_event)
   \<and> set (set_order sample_env
            (insert (thread_of sample_event) (load_ticketed_threads (tracker_file sample_world))))
       = insert (thread_of sample_event) (load_ticketed_threads (tracker_file sample_world))
   \<and> itop sample_env (create_request sample_world sample_event)
       = Inr \<lparr>status_code = 500, body = ''error'', json = NotJson\<rparr>
   \<and> status_code \<lparr>status_code = 500, body = ''error'', json = NotJson\<rparr> \<noteq> 200
   \<and> raise_ticket sample_env sample_event sample_world =
           (Inr (), sample_world\<lparr>tracker_file := Some (saved sample_env sample_world sample_event),
                       trace := trace sample_world @ [Ack,
                                  WriteTracker (saved sample_env sample_world sample_event),
                                  ItopPost (create_request sample_world sample_event),
                                  LogError (''Failed to create iTop ticket: ''
                                    @ body \<lparr>status_code = 500, body = ''error'', json = NotJson\<rparr>)]\<rparr>)
   \<and> load_ticketed_threads (tracker_file (snd (raise_ticket sample_env sample_event sample_world)))
       = insert (thread_of sample_event) (load_ticketed_threads (tracker_file sample_world))"
proof -
  have h: "thread_of sample_event \<notin> load_ticketed_threads (tracker_file sample_world)"
    "storable_token (thread_of sample_event)"
    "set (set_order sample_env
            (insert (thread_of sample_event) (load_ticketed_threads (tracker_file sample_world))))
       = insert (thread_of sample_event) (load_ticketed_threads (tracker_file sample_world))"
    by code_simp+
  have i: "itop sample_env (create_request sample_world sample_event)
       = Inr \<lparr>status_code = 500, body = ''error'', json = NotJson\<rparr>"
    "status_code \<lparr>status_code = 500, body = ''error'', json = NotJson\<rparr> \<noteq> 200"
    by (simp_all add: sample_env_def)
  from h i failed_creation_keeps_thread_tracked[OF h i]
  show ?thesis by blast
qed

text \<open>
  Claim C10. For an author without a row in the identity store the name lookup returns
  the pair of empty strings, and the create path (a thread not yet tracked) still sends
  the creation request, its caller name and first name empty.
\<close>

theorem unknown_author_gets_empty_caller:
  assumes "ev_user event \<notin> u_id ` set (users w)"
  shows "get_user_info_from_db (users w) (ev_user event) = ('''', '''')
         \<and> (thread_of event \<notin> load_ticketed_threads (tracker_file w) \<and> thread_of event \<noteq> [] \<longrightarrow>
              take 3 (drop (length (trace w)) (trace (snd (raise_ticket env event w))))
              = [Ack, WriteTracker (saved env w event),
                 ItopPost (CoreCreate \<lparr>caller_name = '''', caller_first_name = '''',
                    description = description_of (ev_text event),
                    title = title_of (ev_text event),
                    slack_address = ''https://xxx.slack.com/archives/'' @ ev_channel event
                       @ ''/p'' @ concat (py_split (thread_of event) ''.'')\<rparr>)])"
proof -
  have "find (\<lambda>r. u_id r = ev_user event) (users w) = None"
    using assms by (force simp: find_None_iff image_iff)
  then have g: "get_user_info_from_db (users w) (ev_user event) = ('''', '''')"
    by (simp add: get_user_info_from_db_def)
  have "take 3 (drop (length (trace w)) (trace (snd (raise_ticket env event w))))
              = [Ack, WriteTracker (saved env w event), ItopPost (create_request w event)]"
    if "thread_of event \<notin> load_ticketed_threads (tracker_file w)" "thread_of event \<noteq> []"
    using that by (simp add: raise_ticket_untracked Let_def split: sum.splits)
  then show ?thesis using g by (simp add: create_request_def)
qed

theorem unknown_author_gets_empty_caller_witness:
  "ev_user sample_event \<notin> u_id ` set (users sample_world)
   \<and> thread_of sample_event \<notin> load_ticketed_threads (tracker_file sample_world)
   \<and> thread_of sample_event \<noteq> []
   \<and> get_user_info_from_db (users sample_world) (ev_user sample_event) = ('''', '''')
   \<and> take 3 (drop (length (trace sample_world))
               (trace (snd (raise_ticket sample_env sample_event sample_world))))
       = [Ack, WriteTracker (saved sample_env sample_world sample_event),
          ItopPost (CoreCreate \<lparr>caller_name = '''', caller_first_name = '''',
             description = description_of (ev_text sample_event),
             title = title_of (ev_text sample_event),
             slack_address = ''https://xxx.slack.com/archives/'' @ ev_channel sample_event
                @ ''/p'' @ concat (py_split (thread_of sample_event) ''.'')\<rparr>)]"
proof -
  have h: "ev_user sample_event \<notin> u_id ` set (users sample_world)"
    by (simp add: sample_world_def)
  have t: "thread_of sample_event \<notin> load_ticketed_threads (tracker_file sample_world)"
    "thread_of sample_event \<noteq> []"
    by code_simp+
  from h t unknown_author_gets_empty_caller[OF h, of sample_env]
  show ?thesis by blast
qed

section \<open>ticket_assigned\<close>


lemma ensure_eyes_read_fails:
  assumes "slack_raises env (ReactionsGet ch a)"
  shows "ensure_eyes env ch a w =
           (Inr (), w\<lparr>trace := trace w @ [Slack (ReactionsGet ch a),
                                            Print ''Error checking for reactions'']\<rparr>)"
  using assms by (simp add: ensure_eyes_def prog_defs)

lemma ensure_eyes_trace:
  "\<exists>tr. \<forall>w. ensure_eyes env ch a w = (Inr (), w\<lparr>trace := trace w @ tr\<rparr>)"
proof -
  define tr where "tr =
    (if slack_raises env (ReactionsGet ch a)
     then [Slack (ReactionsGet ch a), Print ''Error checking for reactions'']
     else case reactions env ch a of
            None \<Rightarrow> [Slack (ReactionsGet ch a)]
          | Some names \<Rightarrow>
              if ''eyes'' \<in> set names then [Slack (ReactionsGet ch a)]
              else if slack_raises env (ReactionsAdd ''eyes'' ch a)
              then [Slack (ReactionsGet ch a), Slack (ReactionsAdd ''eyes'' ch a),
                    Print ''Error checking for reactions'']
              else [Slack (ReactionsGet ch a), Slack (ReactionsAdd ''eyes'' ch a)])"
  have "ensure_eyes env ch a w = (Inr (), w\<lparr>trace := trace w @ tr\<rparr>)" for w
    unfolding tr_def by (simp add: ensure_eyes_def prog_defs split: option.splits)
  then show ?thesis by blast
qed

lemma ticket_assigned_run:
  assumes "thread_address (link_text text_block) = Inr a"
    and "channel_id_of (link_text text_block) = Inr ch"
    and "\<not> slack_raises env (ConversationsHistory ch a)"
    and "last_user (history env ch a) None = Inr (Some u)"
    and "assigned_person_name_of text_block = Inr name"
  shows "ticket_assigned env (text_block # rest) w =
     (let w1 = snd (ensure_eyes env ch a (w\<lparr>trace := trace w @ [Slack (ConversationsHistory ch a)]\<rparr>));
          uid = get_assigned_user_id (users w) name;
          reply = ChatPostMessage ch (assigned_text u name) a;
          dm = ChatPostDirect (dm_channel env uid)
                 (direct_text uid (ticket_number_of text_block) (link_text text_block))
      in if slack_raises env reply
         then (Inl SlackApiError, w1\<lparr>trace := trace w1 @ [Slack reply]\<rparr>)
         else if slack_raises env (ConversationsOpen uid)
         then (Inl SlackApiError, w1\<lparr>trace := trace w1 @ [Slack reply, Slack (ConversationsOpen uid)]\<rparr>)
         else (if slack_raises env dm then Inl SlackApiError else Inr (),
               w1\<lparr>trace := trace w1 @ [Slack reply, Slack (ConversationsOpen uid), Slack dm]\<rparr>))"
proof -
  obtain tr where "\<forall>w. ensure_eyes env ch a w = (Inr (), w\<lparr>trace := trace w @ tr\<rparr>)"
    using ensure_eyes_trace by blast
  then have e: "ensure_eyes env ch a = (\<lambda>w. (Inr (), w\<lparr>trace := trace w @ tr\<rparr>))"
    by auto
  have i: "py_index (text_block # rest) 0 = Inr text_block" by (simp add: py_index_def)
  show ?thesis
    unfolding ticket_assigned_def
    using assms i
    by (simp add: e seq_def lift_def ret_def throw_def slack_def emit_def read_users_def Let_def)
qed



text \<open>
  Claim C8, as stated, fails: with no member named Jane Doe the lookup gives the null
  identifier, the reply is posted in the thread, and then the handler goes on with the
  direct-message step: it calls conversations_open with the null identifier and posts
  the direct message on the channel that call returns.
\<close>

theorem unknown_assignee_direct_message_not_skipped:
  "assigned_person_name_of sample_text = Inr ''Jane Doe''
   \<and> get_assigned_user_id (users sample_world) ''Jane Doe'' = None
   \<and> trace (snd (ticket_assigned sample_env [sample_text] sample_world))
       = [Slack (ConversationsHistory ''C1'' ''1699999999.123456''),
          Slack (ReactionsGet ''C1'' ''1699999999.123456''),
          Print ''Error checking for reactions'',
          Slack (ChatPostMessage ''C1'' ''Hi <@U1>, your ticket is assigned to Jane Doe.''
                   ''1699999999.123456''),
          Slack (ConversationsOpen None),
          Slack (ChatPostDirect ''D1''
                   (''Hi <@None>, you have been assigned to R-000111. '' @ [LF, LF]
                    @ ''Link to Slack: https://x.slack.com/archives/C1/p1699999999123456''))]"
  by code_simp

text \<open>
  Claim C8, amended. When no member has the extracted assignee name, the lookup yields
  the null identifier and the reply naming the assignee is posted in the thread; the
  direct-message step is not skipped: unless the reply call raised, conversations_open
  is called with the null identifier and, when that call returns, the direct message
  is posted on the channel it gave.
\<close>

theorem unknown_assignee_still_notified:
  assumes "thread_address (link_text text_block) = Inr a"
    and "channel_id_of (link_text text_block) = Inr ch"
    and "\<not> slack_raises env (ConversationsHistory ch a)"
    and "last_user (history env ch a) None = Inr (Some u)"
    and "assigned_person_name_of text_block = Inr name"
    and "name \<notin> u_real_name ` set (users w)"
  shows "get_assigned_user_id (users w) name = None
         \<and> trace (snd (ticket_assigned env (text_block # rest) w))
           = trace (snd (ensure_eyes env ch a
                      (w\<lparr>trace := trace w @ [Slack (ConversationsHistory ch a)]\<rparr>)))
             @ [Slack (ChatPostMessage ch (assigned_text u name) a)]
             @ (if slack_raises env (ChatPostMessage ch (assigned_text u name) a) then []
                else Slack (ConversationsOpen None)
                     # (if slack_raises env (ConversationsOpen None) then []
                        else [Slack (ChatPostDirect (dm_channel env None)
                                (direct_text None (ticket_number_of text_block)
                                   (link_text text_block)))]))"
proof -
  have "find (\<lambda>r. u_real_name r = name) (users w) = None"
    using assms(6) by (force simp: find_None_iff image_iff)
  then have g: "get_assigned_user_id (users w) name = None"
    by (simp add: get_assigned_user_id_def)
  show ?thesis
    by (simp add: ticket_assigned_run[OF assms(1-5)] g Let_def)
qed

theorem unknown_assignee_still_notified_witness:
  "thread_address (link_text sample_text) = Inr ''1699999999.123456''
   \<and> channel_id_of (link_text sample_text) = Inr ''C1''
   \<and> \<not> slack_raises sample_env (ConversationsHistory ''C1'' ''1699999999.123456'')
   \<and> last_user (history sample_env ''C1'' ''1699999999.123456'') None = Inr (Some ''U1'')
   \<and> assigned_person_name_of sample_text = Inr ''Jane Doe''
   \<and> ''Jane Doe'' \<notin> u_real_name ` set (users sample_world)
   \<and> get_assigned_user_id (users sample_world) ''Jane Doe'' = None
   \<and> trace (snd (ticket_assigned sample_env (sample_text # []) sample_world))
       = trace (snd (ensure_eyes sample_env ''C1'' ''1699999999.123456''
                  (sample_world\<lparr>trace := trace sample_world
                     @ [Slack (ConversationsHistory ''C1'' ''1699999999.123456'')]\<rparr>)))
         @ [Slack (ChatPostMessage ''C1'' (assigned_text ''U1'' ''Jane Doe'') ''1699999999.123456'')]
         @ (if slack_raises sample_env
                 (ChatPostMessage ''C1'' (assigned_text ''U1'' ''Jane Doe'') ''1699999999.123456'')
            then []
            else Slack (ConversationsOpen None)
                 # (if slack_raises sample_env (ConversationsOpen None) then []
                    else [Slack (ChatPostDirect (dm_channel sample_env None)
                            (direct_text None (ticket_number_of sample_text)
                               (link_text sample_text)))]))"
proof -
  have h: "thread_address (link_text sample_text) = Inr ''1699999999.123456''"
    "channel_id_of (link_text sample_text) = Inr ''C1''"
    "\<not> slack_raises sample_env (ConversationsHistory ''C1'' ''1699999999.123456'')"
    "last_user (history sample_env ''C1'' ''1699999999.123456'') None = Inr (Some ''U1'')"
    "assigned_person_name_of sample_text = Inr ''Jane Doe''"
    by code_simp+
  have n: "''Jane Doe'' \<notin> u_real_name ` set (users sample_world)"
    by (simp add: sample_world_def)
  from h n unknown_assignee_still_notified[OF h n, of "[]"]
  show ?thesis by blast
qed

text \<open>
  Claim C9, as stated, fails: when the read of the reactions raises, control leaves the
  try block, which also holds the add; the except branch prints and the handler goes on.
  No reaction is added.
\<close>

theorem failed_reaction_read_adds_nothing:
  "slack_raises sample_env (ReactionsGet ''C1'' ''1699999999.123456'')
   \<and> fst (ticket_assigned sample_env [sample_text] sample_world) = Inr ()
   \<and> trace (snd (ticket_assigned sample_env [sample_text] sample_world))
       = [Slack (ConversationsHistory ''C1'' ''1699999999.123456''),
          Slack (ReactionsGet ''C1'' ''1699999999.123456''),
          Print ''Error checking for reactions'',
          Slack (ChatPostMessage ''C1'' (assigned_text ''U1'' ''Jane Doe'') ''1699999999.123456''),
          Slack (ConversationsOpen None),
          Slack (ChatPostDirect ''D1'' (direct_text None ''R-000111''
                   ''Link to Slack: https://x.slack.com/archives/C1/p1699999999123456''))]
   \<and> Slack (ReactionsAdd ''eyes'' ''C1'' ''1699999999.123456'')
       \<notin> set (trace (snd (ticket_assigned sample_env [sample_text] sample_world)))"
  by code_simp

text \<open>
  Claim C9, amended. When the read of the reactions raises, the failure is swallowed:
  the handler prints the error, attempts no add of the reaction, and goes on to post
  the reply in the thread and then the direct message (each as far as the call before
  it returned).
\<close>

theorem failed_reaction_read_is_swallowed:
  assumes "thread_address (link_text text_block) = Inr a"
    and "channel_id_of (link_text text_block) = Inr ch"
    and "\<not> slack_raises env (ConversationsHistory ch a)"
    and "last_user (history env ch a) None = Inr (Some u)"
    and "assigned_person_name_of text_block = Inr name"
    and "slack_raises env (ReactionsGet ch a)"
  shows "trace (snd (ticket_assigned env (text_block # rest) w))
           = trace w
             @ [Slack (ConversationsHistory ch a), Slack (ReactionsGet ch a),
                Print ''Error checking for reactions'',
                Slack (ChatPostMessage ch (assigned_text u name) a)]
             @ (if slack_raises env (ChatPostMessage ch (assigned_text u name) a) then []
                else Slack (ConversationsOpen (get_assigned_user_id (users w) name))
                     # (if slack_raises env (ConversationsOpen (get_assigned_user_id (users w) name))
                        then []
                        else [Slack (ChatPostDirect
                                (dm_channel env (get_assigned_user_id (users w) name))
                                (direct_text (get_assigned_user_id (users w) name)
                                   (ticket_number_of text_block) (link_text text_block)))]))
         \<and> fst (ticket_assigned env (text_block # rest) w)
           = (if slack_raises env (ChatPostMessage ch (assigned_text u name) a)
                 \<or> slack_raises env (ConversationsOpen (get_assigned_user_id (users w) name))
                 \<or> slack_raises env (ChatPostDirect
                                (dm_channel env (get_assigned_user_id (users w) name))
                                (direct_text (get_assigned_user_id (users w) name)
                                   (ticket_number_of text_block) (link_text text_block)))
              then Inl SlackApiError else Inr ())"
  by (simp add: ticket_assigned_run[OF assms(1-5)] ensure_eyes_read_fails[OF assms(6)] Let_def)

theorem failed_reaction_read_is_swallowed_witness:
  "thread_address (link_text sample_text) = Inr ''1699999999.123456''
   \<and> channel_id_of (link_text sample_text) = Inr ''C1''
   \<and> \<not> slack_raises sample_env (ConversationsHistory ''C1'' ''1699999999.123456'')
   \<and> last_user (history sample_env ''C1'' ''1699999999.123456'') None = Inr (Some ''U1'')
   \<and> assigned_person_name_of sample_text = Inr ''Jane Doe''
   \<and> slack_raises sample_env (ReactionsGet ''C1'' ''1699999999.123456'')
   \<and> trace (snd (ticket_assigned sample_env (sample_text # []) sample_world))
           = trace sample_world
             @ [Slack (ConversationsHistory ''C1'' ''1699999999.123456''),
                Slack (ReactionsGet ''C1'' ''1699999999.123456''),
                Print ''Error checking for reactions'',
                Slack (ChatPostMessage ''C1'' (assigned_text ''U1'' ''Jane Doe'')
                         ''1699999999.123456'')]
             @ (if slack_raises sample_env
                     (ChatPostMessage ''C1'' (assigned_text ''U1'' ''Jane Doe'')
                         ''1699999999.123456'')
                then []
                else Slack (ConversationsOpen (get_assigned_user_id (users sample_world) ''Jane Doe''))
                     # (if slack_raises sample_env
                             (ConversationsOpen (get_assigned_user_id (users sample_world) ''Jane Doe''))
                        then []
                        else [Slack (ChatPostDirect
                                (dm_channel sample_env
                                   (get_assigned_user_id (users sample_world) ''Jane Doe''))
                                (direct_text (get_assigned_user_id (users sample_world) ''Jane Doe'')
                                   (ticket_number_of sample_text) (link_text sample_text)))]))"
proof -
  have h: "thread_address (link_text sample_text) = Inr ''1699999999.123456''"
    "channel_id_of (link_text sample_text) = Inr ''C1''"
    "\<not> slack_raises sample_env (ConversationsHistory ''C1'' ''1699999999.123456'')"
    "last_user (history sample_env ''C1'' ''1699999999.123456'') None = Inr (Some ''U1'')"
    "assigned_person_name_of sample_text = Inr ''Jane Doe''"
    "slack_raises sample_env (ReactionsGet ''C1'' ''1699999999.123456'')"
    by code_simp+
  from h failed_reaction_read_is_swallowed[OF h, of "[]" sample_world]
  show ?thesis by blast
qed

section \<open>Parsing the webhook text\<close>


lemma contains_Cons_tail: "\<not> contains sub (c # s) \<Longrightarrow> \<not> contains sub s"
  by simp

lemma not_prefix_before:
  assumes "\<not> contains sub (c # pre @ butlast sub)"
  shows "\<not> prefix sub (c # pre @ sub @ rest)"
proof
  assume p: "prefix sub (c # pre @ sub @ rest)"
  have q: "prefix (c # pre @ butlast sub) (c # pre @ sub @ rest)"
    by (simp add: prefix_def) (metis append_butlast_last_id append_Nil butlast.simps(1) append_assoc)
  have "length sub \<le> length (c # pre @ butlast sub)" by simp
  with p q have "prefix sub (c # pre @ butlast sub)"
    by (rule prefix_length_prefix)
  then have "contains sub (c # pre @ butlast sub)" by simp
  with assms show False by simp
qed

lemma find_first_decomp:
  assumes "sub \<noteq> []" "\<not> contains sub (pre @ butlast sub)"
  shows "find_first sub (pre @ sub @ rest) = Some (length pre)"
  using assms(2)
proof (induction pre)
  case Nil
  obtain c cs where e: "sub @ rest = c # cs" using assms(1) by (cases sub) auto
  have "prefix sub (sub @ rest)" by simp
  then have "prefix sub (c # cs)" by (simp only: e)
  then have "find_first sub (c # cs) = Some 0" by simp
  then show ?case by (simp add: e)
next
  case (Cons c pre)
  have "\<not> prefix sub (c # pre @ sub @ rest)" using Cons.prems not_prefix_before by simp
  moreover have "\<not> contains sub (pre @ butlast sub)" using Cons.prems by simp
  ultimately show ?case using Cons.IH by simp
qed

lemma split_acc_none: "\<not> contains sep s \<Longrightarrow> split_acc sep acc s = [acc @ s]"
  by (induction s arbitrary: acc) auto

lemma split_acc_decomp:
  assumes "sep \<noteq> []" "\<not> contains sep (a @ butlast sep)"
  shows "split_acc sep acc (a @ sep @ d) = (acc @ a) # split_acc sep [] d"
  using assms(2)
proof (induction a arbitrary: acc)
  case Nil
  obtain c cs where s: "sep = c # cs" using assms(1) by (cases sep) auto
  then show ?case by simp
next
  case (Cons c a)
  have "\<not> prefix sep (c # a @ sep @ d)" using Cons.prems not_prefix_before by simp
  moreover have "\<not> contains sep (a @ butlast sep)" using Cons.prems by simp
  ultimately show ?case using Cons.IH[of "acc @ [c]"] by simp
qed

lemma split_acc_char:
  "split_acc [c] acc (x @ c # z) = split_acc [c] acc x @ split_acc [c] [] z"
  by (induction x arbitrary: acc) auto

lemma split_acc_char_none: "c \<notin> set y \<Longrightarrow> split_acc [c] acc y = [acc @ y]"
  by (induction y arbitrary: acc) auto

lemma split_acc_nonempty: "split_acc sep acc s \<noteq> []"
  by (induction sep acc s rule: split_acc.induct) auto

lemma py_index_second_last: "py_index (ps @ [x, y]) (- 2) = Inr x"
proof -
  have "nat (- 2 + int (length (ps @ [x, y]))) = length ps" by simp
  moreover have "(ps @ [x, y]) ! length ps = x" by (simp add: nth_append)
  ultimately show ?thesis by (simp add: py_index_def)
qed

lemma py_index_1: "py_index (x # y # ys) 1 = Inr y"
  by (simp add: py_index_def)

lemma strip_core:
  assumes "s \<noteq> []" "\<not> is_space (hd s)" "\<not> is_space (last s)" "list_all is_space ws"
  shows "strip (s @ ws) = s"
proof -
  have "dropWhile is_space (rev ws @ rev s) = rev s"
    using assms by (simp add: dropWhile_append1 dropWhile_append2 list_all_iff hd_rev
        dropWhile_append3) (metis dropWhile_append2 dropWhile_eq_self_iff hd_rev rev_is_Nil_conv set_rev)
  then have "rstrip (s @ ws) = s" by (simp add: rstrip_def)
  moreover have "dropWhile is_space s = s" using assms by (cases s) auto
  ultimately show ?thesis by (simp add: strip_def)
qed

lemma strip_no_space: "\<forall>c \<in> set s. \<not> is_space c \<Longrightarrow> strip s = s"
proof (cases "s = []")
  case True
  then show ?thesis by (simp add: strip_def rstrip_def)
next
  case False
  assume "\<forall>c \<in> set s. \<not> is_space c"
  then have "\<not> is_space (hd s)" "\<not> is_space (last s)" using False by auto
  then show ?thesis using strip_core[OF False, of "[]"] by simp
qed

lemma digit_not_space: "is_digit c \<Longrightarrow> \<not> is_space c"
  by (auto simp: is_digit_def is_space_def)

lemma digit_not_slash: "is_digit c \<Longrightarrow> c \<noteq> CHR ''/''"
  by (auto simp: is_digit_def)



lemma slice_from_nat: "k \<le> length s \<Longrightarrow> slice_from s (int k) = drop k s"
  by (simp add: slice_from_def slice_bound_def)

lemma py_find_decomp:
  assumes "sub \<noteq> []" "\<not> contains sub (pre @ butlast sub)"
  shows "py_find (pre @ sub @ rest) sub = int (length pre)"
  by (simp add: py_find_def find_first_decomp[OF assms])

lemma slice_window:
  assumes "k \<le> length s"
  shows "slice s (int k) (int k + int n) = take n (drop k s)"
proof -
  have a: "slice_bound (length s) (int k) = k" using assms by (simp add: slice_bound_def)
  have b: "slice_bound (length s) (int k + int n) = min (k + n) (length s)"
    by (simp add: slice_bound_def nat_add_distrib)
  have "take (min (k + n) (length s) - k) (drop k s) = take n (drop k s)"
  proof (cases "k + n \<le> length s")
    case True
    then show ?thesis by simp
  next
    case False
    then have "min (k + n) (length s) - k = length (drop k s)" using assms by simp
    moreover have "length (drop k s) \<le> n" using False by simp
    ultimately show ?thesis by simp
  qed
  then show ?thesis by (simp add: slice_def a b Let_def)
qed

lemma ticket_number_decomp:
  assumes "\<not> contains ''R-'' (tp @ ''R'')"
  shows "ticket_number_of (tp @ ''R-'' @ tq) = ''R-'' @ take 6 tq"
proof -
  have f: "py_find (tp @ ''R-'' @ tq) ''R-'' = int (length tp)"
    using assms by (intro py_find_decomp) simp_all
  have "slice (tp @ ''R-'' @ tq) (int (length tp)) (int (length tp) + int 8)
        = take 8 (drop (length tp) (tp @ ''R-'' @ tq))"
    by (rule slice_window) simp
  then have "slice (tp @ ''R-'' @ tq) (int (length tp)) (int (length tp) + 8)
        = ''R-'' @ take 6 tq" by simp
  then show ?thesis unfolding ticket_number_of_def Let_def f .
qed

lemma link_text_decomp:
  assumes "\<not> contains ''Link to Slack:'' (pre @ ''Link to Slack'')"
    and "list_all is_space ws"
    and "s \<noteq> []" "\<not> is_space (last (''Link to Slack:'' @ s))"
  shows "link_text (pre @ ''Link to Slack:'' @ s @ ws) = ''Link to Slack:'' @ s"
proof -
  have f: "py_find (pre @ ''Link to Slack:'' @ s @ ws) ''Link to Slack:'' = int (length pre)"
    using assms(1) by (intro py_find_decomp) simp_all
  have d: "slice_from (pre @ ''Link to Slack:'' @ s @ ws) (int (length pre))
           = (''Link to Slack:'' @ s) @ ws"
    by (simp add: slice_from_nat)
  have "\<not> is_space (hd (''Link to Slack:'' @ s))" by (simp add: is_space_def)
  then have "strip ((''Link to Slack:'' @ s) @ ws) = ''Link to Slack:'' @ s"
    using assms(2,4) by (intro strip_core) simp_all
  then show ?thesis by (simp only: link_text_def f d)
qed



lemma contains_char: "contains [c] s = (c \<in> set s)"
  by (induction s) auto

lemma contains_snoc_other:
  assumes "\<not> contains [x, y] a" "z \<noteq> y"
  shows "\<not> contains [x, y] (a @ [z])"
proof
  assume "contains [x, y] (a @ [z])"
  then have "sublist [x, y] (a @ [z])" by (simp add: contains_sublist)
  then consider "sublist [x, y] a" | "sublist [x, y] [z]"
    | xs1 xs2 where "[x, y] = xs1 @ xs2" "suffix xs1 a" "prefix xs2 [z]"
    unfolding sublist_append by blast
  then show False
  proof cases
    case 1
    then show ?thesis using assms(1) by (simp add: contains_sublist)
  next
    case 2
    then show ?thesis by (auto simp: sublist_Cons_right)
  next
    case 3
    from 3(3) have "xs2 = [] \<or> xs2 = [z]" by (cases xs2) auto
    then show ?thesis
    proof
      assume "xs2 = []"
      with 3 have "suffix [x, y] a" by simp
      then have "sublist [x, y] a" by (rule suffix_imp_sublist)
      then show False using assms(1) by (simp add: contains_sublist)
    next
      assume "xs2 = [z]"
      with 3(1) have "[x, y] = xs1 @ [z]" by simp
      then have "y = z" by (metis last.simps last_snoc list.distinct(1))
      with assms(2) show False by simp
    qed
  qed
qed

lemma thread_address_decomp:
  assumes "\<not> contains ''/p'' a" "list_all is_digit digits"
  shows "thread_address (a @ ''/p'' @ digits) = Inr (take 10 digits @ ''.'' @ drop 10 digits)"
proof -
  have n: "\<not> contains ''/p'' (a @ butlast ''/p'')"
    using contains_snoc_other[OF assms(1), of "CHR ''/''"] by simp
  have "CHR ''/'' \<notin> set digits" using assms(2) digit_not_slash by (auto simp: list_all_iff)
  then have "\<not> contains ''/p'' digits"
    using set_mono_sublist[of "''/p''" digits] by (auto simp: contains_sublist)
  then have d: "split_acc ''/p'' [] digits = [digits]" by (simp add: split_acc_none)
  have "split_acc ''/p'' [] (a @ ''/p'' @ digits) = ([] @ a) # split_acc ''/p'' [] digits"
    using n by (intro split_acc_decomp) simp_all
  then have s: "py_split (a @ ''/p'' @ digits) ''/p'' = [a, digits]"
    by (simp add: py_split_def d)
  have "strip digits = digits"
    using assms(2) digit_not_space by (intro strip_no_space) (auto simp: list_all_iff)
  then show ?thesis unfolding thread_address_def s by (simp add: py_index_1)
qed

lemma channel_id_decomp:
  assumes "CHR ''/'' \<notin> set chan" "list_all is_digit digits"
  shows "channel_id_of (x @ ''/'' @ chan @ ''/p'' @ digits) = Inr (strip chan)"
proof -
  have dg: "CHR ''/'' \<notin> set (''p'' @ digits)"
    using assms(2) digit_not_slash by (auto simp: list_all_iff)
  have "split_acc ''/'' [] (x @ CHR ''/'' # (chan @ CHR ''/'' # (''p'' @ digits)))
        = split_acc ''/'' [] x @ split_acc ''/'' [] (chan @ CHR ''/'' # (''p'' @ digits))"
    by (rule split_acc_char)
  also have "split_acc ''/'' [] (chan @ CHR ''/'' # (''p'' @ digits))
        = split_acc ''/'' [] chan @ split_acc ''/'' [] (''p'' @ digits)"
    by (rule split_acc_char)
  also have "split_acc ''/'' [] chan = [chan]" using assms(1) by (simp add: split_acc_char_none)
  also have "split_acc ''/'' [] (''p'' @ digits) = [''p'' @ digits]"
    using split_acc_char_none[OF dg, of "[]"] by simp
  finally have "py_split (x @ ''/'' @ chan @ ''/p'' @ digits) ''/''
        = split_acc ''/'' [] x @ [chan, ''p'' @ digits]"
    by (simp add: py_split_def)
  then show ?thesis unfolding channel_id_of_def by (simp only: py_index_second_last sum.case)
qed

lemma assigned_person_name_decomp:
  assumes "\<not> contains ''Assigned to:'' (ap @ ''Assigned to'')"
    and "LF \<notin> set name" "\<not> contains ''Assigned to:'' name"
  shows "assigned_person_name_of (ap @ ''Assigned to:'' @ name @ LF # aq) = Inr (strip name)"
proof -
  let ?t = "ap @ ''Assigned to:'' @ name @ LF # aq"
  have f: "py_find ?t ''Assigned to:'' = int (length ap)"
    using assms(1) by (intro py_find_decomp) simp_all
  have "LF \<notin> set (''Assigned to:'' @ name)" using assms(2) by simp
  then have "\<not> contains [LF] ((''Assigned to:'' @ name) @ butlast [LF])"
    by (simp only: contains_char butlast.simps append_Nil2 if_True) simp
  then have "find_first [LF] ((''Assigned to:'' @ name) @ [LF] @ aq)
             = Some (length (''Assigned to:'' @ name))"
    by (intro find_first_decomp) simp_all
  then have g: "find_first [LF] (drop (length ap) ?t) = Some (length (''Assigned to:'' @ name))"
    by simp
  have sb: "slice_bound (length ?t) (int (length ap)) = length ap"
    by (simp add: slice_bound_def)
  have le: "\<not> int (length ap) > int (length ?t)" by simp
  have n: "py_find_from ?t [LF] (int (length ap))
           = int (length ap) + int (length (''Assigned to:'' @ name))"
    unfolding py_find_from_def Let_def sb g using le by (simp only: if_False option.case)
  have w: "slice ?t (int (length ap)) (int (length ap) + int (length (''Assigned to:'' @ name)))
        = take (length (''Assigned to:'' @ name)) (drop (length ap) ?t)"
    by (rule slice_window) simp
  have d: "drop (length ap) ?t = (''Assigned to:'' @ name) @ LF # aq" by simp
  have sl: "slice ?t (int (length ap)) (int (length ap) + int (length (''Assigned to:'' @ name)))
        = ''Assigned to:'' @ name"
    unfolding w d by simp
  have e: "\<not> contains ''Assigned to:'' ([] @ butlast ''Assigned to:'')" by code_simp
  have "split_acc ''Assigned to:'' [] ([] @ ''Assigned to:'' @ name)
        = ([] @ []) # split_acc ''Assigned to:'' [] name"
    using e by (intro split_acc_decomp) simp_all
  then have sp: "py_split (''Assigned to:'' @ name) ''Assigned to:'' = [[], name]"
    using assms(3) by (simp add: py_split_def split_acc_none)
  show ?thesis
    unfolding assigned_person_name_of_def Let_def f n sl sp by (simp add: py_index_1)
qed



lemma appends_ret: "appends (ret x)"
  by (simp add: appends_def ret_def)

lemma appends_throw: "appends (throw e)"
  by (simp add: appends_def throw_def)

lemma appends_emit: "appends (emit e)"
  by (simp add: appends_def emit_def)

lemma appends_lift: "appends (lift r)"
  by (cases r) (simp_all add: lift_def appends_ret appends_throw)

lemma appends_read_users: "appends read_users"
  by (simp add: appends_def read_users_def)

lemma appends_read_tracker: "appends read_tracker"
  by (simp add: appends_def read_tracker_def)

lemma appends_write_tracker: "appends (write_tracker c)"
  by (simp add: appends_def write_tracker_def)

lemma appends_seq:
  assumes "appends m" "\<And>x. appends (f x)"
  shows "appends (seq m f)"
  unfolding appends_def
proof
  fix w
  obtain r w1 where m: "m w = (r, w1)" by (cases "m w")
  from assms(1) obtain t1 where t1: "trace w1 = trace w @ t1"
    unfolding appends_def using m by (metis snd_conv)
  show "\<exists>tr. trace (snd (seq m f w)) = trace w @ tr"
  proof (cases r)
    case (Inl e)
    then show ?thesis using m t1 by (simp add: seq_def)
  next
    case (Inr x)
    from assms(2)[of x] obtain t2 where "trace (snd (f x w1)) = trace w1 @ t2"
      unfolding appends_def by blast
    then show ?thesis using m t1 Inr by (simp add: seq_def)
  qed
qed

lemma appends_try_except:
  assumes "appends m" "appends h"
  shows "appends (try_except m h)"
  unfolding appends_def
proof
  fix w
  obtain r w1 where m: "m w = (r, w1)" by (cases "m w")
  from assms(1) obtain t1 where t1: "trace w1 = trace w @ t1"
    unfolding appends_def using m by (metis snd_conv)
  show "\<exists>tr. trace (snd (try_except m h w)) = trace w @ tr"
  proof (cases r)
    case (Inl e)
    from assms(2) obtain t2 where "trace (snd (h w1)) = trace w1 @ t2"
      unfolding appends_def by blast
    then show ?thesis using m t1 Inl by (simp add: try_except_def)
  next
    case (Inr x)
    then show ?thesis using m t1 by (simp add: try_except_def)
  qed
qed

lemma appends_slack: "appends (slack env c)"
  unfolding slack_def by (intro appends_seq appends_emit) (simp add: appends_ret appends_throw)

lemma appends_itop_post: "appends (itop_post env r)"
  unfolding itop_post_def by (intro appends_seq appends_emit appends_lift)

lemma appends_ensure_eyes: "appends (ensure_eyes env ch a)"
  unfolding ensure_eyes_def
  by (intro appends_try_except appends_seq appends_slack appends_emit)
     (simp add: appends_ret appends_slack split: option.splits)

lemma appends_send_loop: "appends (send_loop env t first ms)"
proof (induction ms arbitrary: first)
  case Nil
  then show ?case by (simp add: appends_ret)
next
  case (Cons m ms)
  have "appends (seq (itop_post env (CoreUpdate t (str_of (msg_text m)))) (\<lambda>response.
            if status_code response \<noteq> 200 then
              emit (LogError (''Failed to send conversation to iTop: '' @ body response))
            else
              seq (emit (LogInfo ''Successfully sent conversation to iTop'')) (\<lambda>_.
                send_loop env t False ms)))"
    by (intro appends_seq appends_itop_post) (simp add: appends_emit appends_seq Cons)
  then show ?case using Cons by simp
qed

lemma appends_post_or_name_error:
  "appends (case user_id of None \<Rightarrow> throw NameError | Some u \<Rightarrow> slack env (f u))"
  by (cases user_id) (simp_all add: appends_throw appends_slack)

lemma starts_with:
  assumes "appends k"
  shows "\<exists>tr. trace (snd (seq (slack env c) (\<lambda>_. k) w)) = trace w @ Slack c # tr"
proof (cases "slack_raises env c")
  case True
  then show ?thesis by (simp add: seq_def slack_def emit_def throw_def)
next
  case False
  from assms obtain tr where
    "trace (snd (k (w\<lparr>trace := trace w @ [Slack c]\<rparr>))) = trace (w\<lparr>trace := trace w @ [Slack c]\<rparr>) @ tr"
    unfolding appends_def by blast
  then show ?thesis using False by (simp add: seq_def slack_def emit_def ret_def)
qed

lemma ticket_assigned_first_call:
  assumes "thread_address (link_text text_block) = Inr a"
    and "channel_id_of (link_text text_block) = Inr ch"
  shows "\<exists>tr. trace (snd (ticket_assigned env (text_block # rest) w))
               = trace w @ Slack (ConversationsHistory ch a) # tr"
proof -
  let ?k = "seq (lift (last_user (history env ch a) None)) (\<lambda>user_id.
     seq (lift (assigned_person_name_of text_block)) (\<lambda>assigned_person_name.
     seq read_users (\<lambda>rows.
     seq (ensure_eyes env ch a) (\<lambda>_.
     seq (case user_id of
            None \<Rightarrow> throw NameError
          | Some u \<Rightarrow>
              slack env (ChatPostMessage ch (assigned_text u assigned_person_name) a)) (\<lambda>_.
     seq (slack env (ConversationsOpen (get_assigned_user_id rows assigned_person_name))) (\<lambda>_.
     slack env (ChatPostDirect (dm_channel env (get_assigned_user_id rows assigned_person_name))
       (direct_text (get_assigned_user_id rows assigned_person_name)
          (ticket_number_of text_block) (link_text text_block)))))))))"
  have k: "appends ?k"
    by (intro appends_seq appends_lift appends_read_users appends_ensure_eyes appends_slack
          appends_post_or_name_error)
  have "ticket_assigned env (text_block # rest) w
        = seq (slack env (ConversationsHistory ch a)) (\<lambda>_. ?k) w"
    using assms by (simp add: ticket_assigned_def py_index_def seq_def lift_def ret_def Let_def)
  then show ?thesis using starts_with[OF k] by simp
qed

lemma ticket_resolved_first_call:
  assumes "thread_address (link_text text_block) = Inr a"
    and "channel_id_of (link_text text_block) = Inr ch"
  shows "\<exists>tr. trace (snd (ticket_resolved env (text_block # rest) w))
               = trace w @ PrintData # Print (ticket_number_of text_block)
                 # Slack (ConversationsHistory ch a) # tr"
proof -
  let ?k = "seq (lift (last_user (history env ch a) None)) (\<lambda>user_id.
     seq (slack env (ReactionsAdd ''white_check_mark'' ch a)) (\<lambda>_.
     seq (slack env (ReactionsRemove ''eyes'' ch a)) (\<lambda>_.
     seq (case user_id of
            None \<Rightarrow> throw NameError
          | Some u \<Rightarrow> slack env (ChatPostMessage ch (resolved_text u) a)) (\<lambda>_.
     seq read_tracker (\<lambda>file.
     case file of
       None \<Rightarrow> throw FileNotFoundError
     | Some content \<Rightarrow>
         seq (write_tracker (remove_thread_lines a content)) (\<lambda>_.
         seq (slack env (ConversationsReplies ch a)) (\<lambda>_.
         send_conversation_to_itop env (replies env ch a) (ticket_number_of text_block))))))))"
  have f: "appends (case tf of
       None \<Rightarrow> throw FileNotFoundError
     | Some content \<Rightarrow>
         seq (write_tracker (remove_thread_lines a content)) (\<lambda>_.
         seq (slack env (ConversationsReplies ch a)) (\<lambda>_.
         send_conversation_to_itop env (replies env ch a) (ticket_number_of text_block))))"
    for tf
    by (cases tf)
       (simp_all add: appends_throw appends_seq appends_write_tracker appends_slack
          appends_send_loop send_conversation_to_itop_def)
  have k: "appends ?k"
    by (intro appends_seq appends_lift appends_read_tracker appends_slack
          appends_post_or_name_error f)
  let ?w = "w\<lparr>trace := trace w @ [PrintData, Print (ticket_number_of text_block)]\<rparr>"
  have "ticket_resolved env (text_block # rest) w
        = seq (slack env (ConversationsHistory ch a)) (\<lambda>_. ?k) ?w"
    using assms
    by (simp add: ticket_resolved_def py_index_def seq_def lift_def ret_def emit_def Let_def)
  then show ?thesis using starts_with[OF k, of env "ConversationsHistory ch a" ?w] by simp
qed



text \<open>
  Claim C2, as stated, fails. The handlers take the link to run from the marker to the
  end of the text, and the timestamp token to be all that follows the first "/p" of
  the link. On the text of the section-8 scenario the channel, the ticket and the
  assignee come out as the claim says, but the thread timestamp takes in the text that
  follows the address; and on a text whose workspace name begins with p the token
  starts inside the host name.
\<close>

theorem section8_thread_takes_trailing_text:
  "thread_address (link_text section8_text)
     = Inr (''1699999999.123456 ... R-000111 ... Assigned to: Jane Doe'' @ [LF] @ ''...'')
   \<and> thread_address (link_text section8_text) \<noteq> Inr ''1699999999.123456''
   \<and> channel_id_of (link_text section8_text) = Inr ''C1''
   \<and> ticket_number_of section8_text = ''R-000111''
   \<and> assigned_person_name_of section8_text = Inr ''Jane Doe''
   \<and> take 1 (trace (snd (ticket_assigned sample_env [section8_text] sample_world)))
       = [Slack (ConversationsHistory ''C1''
           (''1699999999.123456 ... R-000111 ... Assigned to: Jane Doe'' @ [LF] @ ''...''))]
   \<and> take 3 (trace (snd (ticket_resolved sample_env [section8_text] sample_world)))
       = [PrintData, Print ''R-000111'', Slack (ConversationsHistory ''C1''
           (''1699999999.123456 ... R-000111 ... Assigned to: Jane Doe'' @ [LF] @ ''...''))]
   \<and> thread_address (link_text p_workspace_text) = Inr ''lato.slack..com/archives/C1''"
  by code_simp

lemma last_of_link:
  "\<not> is_space (last (''Link to Slack:'' @ mid @ ''/'' @ chan @ ''/p'' @ digits))"
  if "list_all is_digit digits"
proof (cases "digits = []")
  case True
  then show ?thesis by (simp add: is_space_def)
next
  case False
  then have "last (''Link to Slack:'' @ mid @ ''/'' @ chan @ ''/p'' @ digits) = last digits"
    by simp
  moreover have "is_digit (last digits)" using that False by (simp add: list_all_iff)
  ultimately show ?thesis using digit_not_space by simp
qed

text \<open>
  Claim C2, amended. Let the text hold, after whatever precedes the first marker
  "Link to Slack:", an address .../<channel>/p<digits> that ends the text (only white
  space may follow the digits) and has no other "/p" before that segment. Then both
  handlers take the channel to be the second-to-last path segment (stripped) and the
  thread timestamp to be the digits with a point after the tenth, and their first call
  on the chat client asks for the history of that channel at that timestamp. The ticket
  identifier is the first "R-" with the six characters after it (fewer when the text
  ends before), and the assignee is the text between the first "Assigned to:" and the
  next newline, stripped.
\<close>

theorem webhook_text_extraction:
  assumes "\<not> contains ''Link to Slack:'' (pre @ ''Link to Slack'')"
    and "\<not> contains ''/p'' (''Link to Slack:'' @ mid @ ''/'' @ chan)"
    and "CHR ''/'' \<notin> set chan"
    and "list_all is_digit digits"
    and "list_all is_space ws"
    and "text_block = pre @ ''Link to Slack:'' @ mid @ ''/'' @ chan @ ''/p'' @ digits @ ws"
  shows "link_text text_block = ''Link to Slack:'' @ mid @ ''/'' @ chan @ ''/p'' @ digits
     \<and> channel_id_of (link_text text_block) = Inr (strip chan)
     \<and> thread_address (link_text text_block) = Inr (take 10 digits @ ''.'' @ drop 10 digits)
     \<and> (\<exists>tr. trace (snd (ticket_assigned env (text_block # rest) w))
              = trace w @ Slack (ConversationsHistory (strip chan)
                                   (take 10 digits @ ''.'' @ drop 10 digits)) # tr)
     \<and> (\<exists>tr. trace (snd (ticket_resolved env (text_block # rest) w))
              = trace w @ PrintData # Print (ticket_number_of text_block)
                # Slack (ConversationsHistory (strip chan)
                           (take 10 digits @ ''.'' @ drop 10 digits)) # tr)
     \<and> (\<forall>tp tq. text_block = tp @ ''R-'' @ tq \<and> \<not> contains ''R-'' (tp @ ''R'')
           \<longrightarrow> ticket_number_of text_block = ''R-'' @ take 6 tq)
     \<and> (\<forall>ap name aq. text_block = ap @ ''Assigned to:'' @ name @ LF # aq
             \<and> \<not> contains ''Assigned to:'' (ap @ ''Assigned to'')
             \<and> LF \<notin> set name \<and> \<not> contains ''Assigned to:'' name
           \<longrightarrow> assigned_person_name_of text_block = Inr (strip name))"
proof -
  let ?s = "mid @ ''/'' @ chan @ ''/p'' @ digits"
  have "link_text (pre @ ''Link to Slack:'' @ ?s @ ws) = ''Link to Slack:'' @ ?s"
    using assms(1,5) last_of_link[OF assms(4)] by (intro link_text_decomp) simp_all
  then have l: "link_text text_block = ''Link to Slack:'' @ mid @ ''/'' @ chan @ ''/p'' @ digits"
    by (simp add: assms(6))
  have "thread_address ((''Link to Slack:'' @ mid @ ''/'' @ chan) @ ''/p'' @ digits)
        = Inr (take 10 digits @ ''.'' @ drop 10 digits)"
    using assms(2,4) by (rule thread_address_decomp)
  then have a: "thread_address (link_text text_block)
        = Inr (take 10 digits @ ''.'' @ drop 10 digits)"
    by (simp add: l)
  have "channel_id_of ((''Link to Slack:'' @ mid) @ ''/'' @ chan @ ''/p'' @ digits)
        = Inr (strip chan)"
    using assms(3,4) by (rule channel_id_decomp)
  then have c: "channel_id_of (link_text text_block) = Inr (strip chan)"
    by (simp add: l)
  have t: "ticket_number_of text_block = ''R-'' @ take 6 tq"
    if "text_block = tp @ ''R-'' @ tq \<and> \<not> contains ''R-'' (tp @ ''R'')" for tp tq
    using that ticket_number_decomp[of tp tq] by simp
  have n: "assigned_person_name_of text_block = Inr (strip name)"
    if "text_block = ap @ ''Assigned to:'' @ name @ LF # aq
             \<and> \<not> contains ''Assigned to:'' (ap @ ''Assigned to'')
             \<and> LF \<notin> set name \<and> \<not> contains ''Assigned to:'' name" for ap name aq
    using that assigned_person_name_decomp[of ap name aq] by simp
  show ?thesis
    using l a c t n ticket_assigned_first_call[OF a c] ticket_resolved_first_call[OF a c]
    by blast
qed

theorem webhook_text_extraction_witness:
  "\<not> contains ''Link to Slack:''
        ((''Ticket R-000111 was assigned. Assigned to: Jane Doe'' @ [LF]) @ ''Link to Slack'')
   \<and> \<not> contains ''/p'' (''Link to Slack:'' @ '' https://x.slack.com/archives'' @ ''/'' @ ''C1'')
   \<and> CHR ''/'' \<notin> set ''C1''
   \<and> list_all is_digit ''1699999999123456''
   \<and> list_all is_space []
   \<and> sample_text = (''Ticket R-000111 was assigned. Assigned to: Jane Doe'' @ [LF])
        @ ''Link to Slack:'' @ '' https://x.slack.com/archives'' @ ''/'' @ ''C1'' @ ''/p''
        @ ''1699999999123456'' @ []
   \<and> channel_id_of (link_text sample_text) = Inr (strip ''C1'')
   \<and> strip ''C1'' = ''C1''
   \<and> thread_address (link_text sample_text)
       = Inr (take 10 ''1699999999123456'' @ ''.'' @ drop 10 ''1699999999123456'')
   \<and> take 10 ''1699999999123456'' @ ''.'' @ drop 10 ''1699999999123456'' = ''1699999999.123456''
   \<and> \<not> contains ''R-'' (''Ticket '' @ ''R'')
   \<and> ticket_number_of sample_text = ''R-'' @ take 6 (''000111 was assigned. Assigned to: Jane Doe''
        @ [LF] @ ''Link to Slack: https://x.slack.com/archives/C1/p1699999999123456'')
   \<and> \<not> contains ''Assigned to:'' (''Ticket R-000111 was assigned. '' @ ''Assigned to'')
   \<and> LF \<notin> set '' Jane Doe''
   \<and> \<not> contains ''Assigned to:'' '' Jane Doe''
   \<and> assigned_person_name_of sample_text = Inr (strip '' Jane Doe'')
   \<and> strip '' Jane Doe'' = ''Jane Doe''"
proof -
  have h: "\<not> contains ''Link to Slack:''
        ((''Ticket R-000111 was assigned. Assigned to: Jane Doe'' @ [LF]) @ ''Link to Slack'')"
    "\<not> contains ''/p'' (''Link to Slack:'' @ '' https://x.slack.com/archives'' @ ''/'' @ ''C1'')"
    "CHR ''/'' \<notin> set ''C1''"
    "list_all is_digit ''1699999999123456''"
    "list_all is_space []"
    by code_simp+
  have e: "sample_text = (''Ticket R-000111 was assigned. Assigned to: Jane Doe'' @ [LF])
        @ ''Link to Slack:'' @ '' https://x.slack.com/archives'' @ ''/'' @ ''C1'' @ ''/p''
        @ ''1699999999123456'' @ []"
    by (simp add: sample_text_def)
  have v: "strip ''C1'' = ''C1''"
    "take 10 ''1699999999123456'' @ ''.'' @ drop 10 ''1699999999123456'' = ''1699999999.123456''"
    "\<not> contains ''R-'' (''Ticket '' @ ''R'')"
    "\<not> contains ''Assigned to:'' (''Ticket R-000111 was assigned. '' @ ''Assigned to'')"
    "LF \<notin> set '' Jane Doe''"
    "\<not> contains ''Assigned to:'' '' Jane Doe''"
    "strip '' Jane Doe'' = ''Jane Doe''"
    by code_simp+
  have t: "sample_text = ''Ticket '' @ ''R-'' @ (''000111 was assigned. Assigned to: Jane Doe''
        @ [LF] @ ''Link to Slack: https://x.slack.com/archives/C1/p1699999999123456'')"
    by (simp add: sample_text_def)
  have n: "sample_text = ''Ticket R-000111 was assigned. '' @ ''Assigned to:'' @ '' Jane Doe''
        @ LF # ''Link to Slack: https://x.slack.com/archives/C1/p1699999999123456''"
    by (simp add: sample_text_def)
  note th = webhook_text_extraction[OF h e, of sample_env "[]" sample_world]
  have c1: "channel_id_of (link_text sample_text) = Inr (strip ''C1'')" using th by blast
  have c2: "thread_address (link_text sample_text)
       = Inr (take 10 ''1699999999123456'' @ ''.'' @ drop 10 ''1699999999123456'')"
    using th by blast
  have c3: "ticket_number_of sample_text = ''R-'' @ take 6 (''000111 was assigned. Assigned to: Jane Doe''
        @ [LF] @ ''Link to Slack: https://x.slack.com/archives/C1/p1699999999123456'')"
    using th t v(3) by blast
  have c4: "assigned_person_name_of sample_text = Inr (strip '' Jane Doe'')"
    using th n v(4,5,6) by blast
  from h e v c1 c2 c3 c4 show ?thesis by blast
qed

end
